theory Spec2Isabelle
  imports Complex_Main "HOL-Library.Multiset"
begin

section \<open>Values of the JavaScript runtime\<close>

text \<open>
  The todo screen (\<^verbatim>\<open>src/app/(tabs)/index.tsx\<close>) receives documents whose payload is
  declared \<^verbatim>\<open>any\<close>: what it reads from them are JSON values. \<open>None\<close> of type \<open>jsval\<close>
  is JavaScript's \<^verbatim>\<open>undefined\<close>.
\<close>

datatype json =
    JNull
  | JBool bool
  | JNum rat
  | JStr string
  | JArr "json list"
  | JObj "(string \<times> json) list"

type_synonym jsval = "json option"

datatype error = SyntaxError | TypeError | RemoteError string

text \<open>The truth value JavaScript gives a value in a condition (\<^verbatim>\<open>t.completed\<close>,
  \<^verbatim>\<open>!todo.completed\<close>).\<close>

fun truthy :: "jsval \<Rightarrow> bool" where
  "truthy None = False"
| "truthy (Some JNull) = False"
| "truthy (Some (JBool b)) = b"
| "truthy (Some (JNum n)) = (n \<noteq> 0)"
| "truthy (Some (JStr s)) = (s \<noteq> [])"
| "truthy (Some (JArr xs)) = True"
| "truthy (Some (JObj kvs)) = True"

text \<open>Reading a property \<^verbatim>\<open>data.k\<close>, for the four names the screen reads (\<^verbatim>\<open>title\<close>,
  \<^verbatim>\<open>text\<close>, \<^verbatim>\<open>completed\<close>, \<^verbatim>\<open>created_at\<close>; no prototype has them): a TypeError on
  \<^verbatim>\<open>undefined\<close> and \<^verbatim>\<open>null\<close>, the member of an object, \<^verbatim>\<open>undefined\<close> otherwise.\<close>

fun get_prop :: "jsval \<Rightarrow> string \<Rightarrow> error + jsval" where
  "get_prop None k = Inl TypeError"
| "get_prop (Some JNull) k = Inl TypeError"
| "get_prop (Some (JObj kvs)) k = Inr (map_of kvs k)"
| "get_prop (Some v) k = Inr None"

section \<open>Data of the todo screen\<close>

record Todo =
  todo_id :: string
  title :: jsval
  todo_text :: jsval
  completed :: jsval
  created_at :: jsval

record TodoSummary =
  total :: int
  completed_count :: int
  pending :: int

datatype action_type = ActComplete | ActDelete

text \<open>The component's React state (the \<^verbatim>\<open>useState\<close> cells of \<^verbatim>\<open>Index\<close>).\<close>

record state =
  loading :: bool
  loadingAction :: "(action_type \<times> string) option"
  refreshing :: bool
  todos :: "Todo list"
  summary :: TodoSummary
  newTodoText :: string

text \<open>What the wallet hooks hand to the component: each may be missing.\<close>

record hooks =
  client :: bool
  account :: "string option"
  queryClient :: bool

text \<open>A listed document (\<^verbatim>\<open>doc.data\<close> is all the screen reads of it) and the answer of
  the listing query \<^verbatim>\<open>UserDocuments\<close>: the response may be \<^verbatim>\<open>undefined\<close> and may lack
  \<^verbatim>\<open>documents\<close> (\<^verbatim>\<open>response?.documents\<close>); the call may throw.\<close>

record doc =
  data :: jsval

record response =
  documents :: "(string \<times> doc) list option"

type_synonym query_result = "error + response option"

datatype exec_msg =
    MsgSet string string Todo
  | MsgUpdate string string Todo
  | MsgDelete string string

text \<open>What an operation does to the outside, in order: the effects a caller or a user
  can observe.\<close>

datatype event =
    QueryUserDocuments string string
  | Execute string exec_msg
  | Sleep int
  | Invoke nat
  | ConsoleLog
  | ConsoleError
  | Alert string string

section \<open>fetchTodos\<close>

text \<open>\<^verbatim>\<open>JSON.parse\<close> and \<^verbatim>\<open>new Date(v).getTime()\<close> belong to the platform: they are
  parameters. \<open>JSON_parse s = None\<close> when the parser throws. \<open>getTime v\<close> is \<open>Inl e\<close> when
  the \<^verbatim>\<open>Date\<close> constructor throws (the conversion of an object to a primitive can), \<open>Inr None\<close>
  when the time value is NaN, and \<open>Inr (Some ms)\<close> for a valid date.\<close>

definition toTodo :: "(string \<Rightarrow> json option) \<Rightarrow> string \<times> doc \<Rightarrow> error + Todo" where
  "toTodo JSON_parse p =
     (case p of (i, d) \<Rightarrow>
        (case (case data d of
                 Some (JStr s) \<Rightarrow>
                   (case JSON_parse s of None \<Rightarrow> Inl SyntaxError | Some v \<Rightarrow> Inr (Some v))
               | v \<Rightarrow> Inr v) of
           Inl e \<Rightarrow> Inl e
         | Inr dat \<Rightarrow>
             (case get_prop dat ''title'' of Inl e \<Rightarrow> Inl e | Inr ti \<Rightarrow>
             (case get_prop dat ''text'' of Inl e \<Rightarrow> Inl e | Inr te \<Rightarrow>
             (case get_prop dat ''completed'' of Inl e \<Rightarrow> Inl e | Inr co \<Rightarrow>
             (case get_prop dat ''created_at'' of Inl e \<Rightarrow> Inl e | Inr cr \<Rightarrow>
                Inr \<lparr>todo_id = i, title = ti, todo_text = te, completed = co,
                     created_at = cr\<rparr>))))))"

text \<open>\<^verbatim>\<open>Array.prototype.map\<close> with a callback that may throw: the first exception
  leaves the map.\<close>

fun map_throw :: "('a \<Rightarrow> error + 'b) \<Rightarrow> 'a list \<Rightarrow> error + 'b list" where
  "map_throw f [] = Inr []"
| "map_throw f (x # xs) =
     (case f x of
        Inl e \<Rightarrow> Inl e
      | Inr y \<Rightarrow> (case map_throw f xs of Inl e \<Rightarrow> Inl e | Inr ys \<Rightarrow> Inr (y # ys)))"

text \<open>The comparator of the sort: \<^verbatim>\<open>dateA\<close> is computed first, then \<^verbatim>\<open>dateB\<close>, and the
  result is \<^verbatim>\<open>dateB - dateA\<close>, which is NaN (\<open>None\<close>) when either date is.\<close>

definition compareFn :: "(jsval \<Rightarrow> error + int option) \<Rightarrow> Todo \<Rightarrow> Todo \<Rightarrow> error + int option" where
  "compareFn getTime a b =
     (case getTime (created_at a) of
        Inl e \<Rightarrow> Inl e
      | Inr dateA \<Rightarrow>
          (case getTime (created_at b) of
             Inl e \<Rightarrow> Inl e
           | Inr dateB \<Rightarrow>
               Inr (case dateA of
                      None \<Rightarrow> None
                    | Some x \<Rightarrow> (case dateB of None \<Rightarrow> None | Some y \<Rightarrow> Some (y - x)))))"

text \<open>\<^verbatim>\<open>Array.prototype.sort\<close> belongs to the platform too. The language fixes its result
  when the comparator is consistent (the stable sorted permutation) and leaves the
  order to the engine otherwise, so the model follows one engine, V8, as it sorts an
  array of fewer than 64 elements: a call of the comparator that throws ends the sort
  with that exception and a NaN is read as 0 (\<open>sort_compare\<close>); the longest run at the
  start of the array that is non-descending, or strictly descending and then reversed,
  is found by comparing each element with the one before it (\<open>take_run\<close>,
  \<open>count_and_make_run\<close>); every later element is put into the sorted part at the place
  a binary search finds (\<open>binary_search\<close>, \<open>binary_insertion\<close>). From 64 elements on V8
  merges several such runs; the model sorts those arrays the same way as the short
  ones, which is the same array whenever the comparator is consistent.\<close>

definition sort_compare :: "('a \<Rightarrow> 'a \<Rightarrow> error + int option) \<Rightarrow> 'a \<Rightarrow> 'a \<Rightarrow> error + int" where
  "sort_compare cmp x y =
     (case cmp x y of Inl e \<Rightarrow> Inl e | Inr None \<Rightarrow> Inr 0 | Inr (Some v) \<Rightarrow> Inr v)"

fun take_run ::
  "('a \<Rightarrow> 'a \<Rightarrow> error + int option) \<Rightarrow> bool \<Rightarrow> 'a \<Rightarrow> 'a list \<Rightarrow> error + 'a list \<times> 'a list" where
  "take_run cmp isDescending previousElement [] = Inr ([], [])"
| "take_run cmp isDescending previousElement (currentElement # rest) =
     (case sort_compare cmp currentElement previousElement of
        Inl e \<Rightarrow> Inl e
      | Inr order \<Rightarrow>
          (if (if isDescending then 0 \<le> order else order < 0)
           then Inr ([], currentElement # rest)
           else
             (case take_run cmp isDescending currentElement rest of
                Inl e \<Rightarrow> Inl e
              | Inr (run, later) \<Rightarrow> Inr (currentElement # run, later))))"

definition count_and_make_run ::
  "('a \<Rightarrow> 'a \<Rightarrow> error + int option) \<Rightarrow> 'a \<Rightarrow> 'a \<Rightarrow> 'a list \<Rightarrow> error + 'a list \<times> 'a list" where
  "count_and_make_run cmp elementHigh elementLow rest =
     (case sort_compare cmp elementLow elementHigh of
        Inl e \<Rightarrow> Inl e
      | Inr order \<Rightarrow>
          (case take_run cmp (order < 0) elementLow rest of
             Inl e \<Rightarrow> Inl e
           | Inr (run, later) \<Rightarrow>
               Inr (if order < 0 then rev (elementHigh # elementLow # run)
                    else elementHigh # elementLow # run,
                    later)))"

function binary_search ::
  "('a \<Rightarrow> 'a \<Rightarrow> error + int option) \<Rightarrow> 'a \<Rightarrow> 'a list \<Rightarrow> nat \<Rightarrow> nat \<Rightarrow> error + nat" where
  "binary_search cmp pivot work left right =
     (if left < right then
        (case sort_compare cmp pivot (work ! (left + (right - left) div 2)) of
           Inl e \<Rightarrow> Inl e
         | Inr order \<Rightarrow>
             (if order < 0 then binary_search cmp pivot work left (left + (right - left) div 2)
              else binary_search cmp pivot work (left + (right - left) div 2 + 1) right))
      else Inr left)"
  by pat_completeness auto
termination
  by (relation "measure (\<lambda>(cmp, pivot, work, left, right). right - left)") auto

declare binary_search.simps [simp del]

fun binary_insertion ::
  "('a \<Rightarrow> 'a \<Rightarrow> error + int option) \<Rightarrow> 'a list \<Rightarrow> 'a list \<Rightarrow> error + 'a list" where
  "binary_insertion cmp work [] = Inr work"
| "binary_insertion cmp work (pivot # later) =
     (case binary_search cmp pivot work 0 (length work) of
        Inl e \<Rightarrow> Inl e
      | Inr left \<Rightarrow> binary_insertion cmp (take left work @ pivot # drop left work) later)"

fun array_sort :: "('a \<Rightarrow> 'a \<Rightarrow> error + int option) \<Rightarrow> 'a list \<Rightarrow> error + 'a list" where
  "array_sort cmp (elementHigh # elementLow # rest) =
     (case count_and_make_run cmp elementHigh elementLow rest of
        Inl e \<Rightarrow> Inl e
      | Inr (run, later) \<Rightarrow> binary_insertion cmp run later)"
| "array_sort cmp xs = Inr xs"

definition no_todos :: "state \<Rightarrow> state" where
  "no_todos st = st\<lparr>todos := [], summary := \<lparr>total = 0, completed_count = 0, pending = 0\<rparr>\<rparr>"

text \<open>The body of the \<^verbatim>\<open>try\<close> block of \<^verbatim>\<open>fetchTodos\<close>, after the query has answered.\<close>

definition fetch_try ::
  "(string \<Rightarrow> json option) \<Rightarrow> (jsval \<Rightarrow> error + int option) \<Rightarrow> response option \<Rightarrow> state
     \<Rightarrow> error + state \<times> event list" where
  "fetch_try JSON_parse getTime resp st =
     (case (case resp of None \<Rightarrow> None | Some r \<Rightarrow> documents r) of
        Some docs \<Rightarrow>
          (case map_throw (toTodo JSON_parse) docs of
             Inl e \<Rightarrow> Inl e
           | Inr todosList \<Rightarrow>
               (case array_sort (compareFn getTime) todosList of
                  Inl e \<Rightarrow> Inl e
                | Inr sortedTodos \<Rightarrow>
                    (let n = int (length (filter (\<lambda>t. truthy (completed t)) sortedTodos))
                     in Inr (st\<lparr>todos := sortedTodos,
                                summary := \<lparr>total = int (length sortedTodos),
                                             completed_count = n,
                                             pending = int (length sortedTodos) - n\<rparr>\<rparr>,
                             [ConsoleLog]))))
      | None \<Rightarrow> Inr (no_todos st, []))"

definition fetchTodos ::
  "hooks \<Rightarrow> (string \<Rightarrow> json option) \<Rightarrow> (jsval \<Rightarrow> error + int option) \<Rightarrow> query_result
     \<Rightarrow> state \<Rightarrow> state \<times> event list" where
  "fetchTodos h JSON_parse getTime q st =
     (case account h of
        Some owner \<Rightarrow>
          (if \<not> queryClient h then (st, [])
           else
             (case (case q of Inl e \<Rightarrow> Inl e | Inr resp \<Rightarrow> fetch_try JSON_parse getTime resp st) of
                Inr (st', evs) \<Rightarrow> (st', QueryUserDocuments owner ''todos'' # evs)
              | Inl e \<Rightarrow> (no_todos st, [QueryUserDocuments owner ''todos'', ConsoleError])))
      | None \<Rightarrow> (st, []))"

section \<open>toggleTodo and deleteTodo\<close>

text \<open>The outcome of \<^verbatim>\<open>client.execute\<close> is an input of the model: \<open>Inl e\<close> when the call
  throws, \<open>Inr ()\<close> when it returns (its result is not read).\<close>

definition updatedTodo :: "Todo \<Rightarrow> Todo" where
  "updatedTodo todo = todo\<lparr>completed := Some (JBool (\<not> truthy (completed todo)))\<rparr>"

definition toggleTodo :: "hooks \<Rightarrow> error + unit \<Rightarrow> Todo \<Rightarrow> state \<Rightarrow> state \<times> event list" where
  "toggleTodo h ex todo st =
     (case account h of
        None \<Rightarrow> (st, [])
      | Some owner \<Rightarrow>
          (if \<not> client h then (st, [])
           else
             (let st1 = st\<lparr>loadingAction := Some (ActComplete, todo_id todo)\<rparr>;
                  msg = Execute owner (MsgUpdate ''todos'' (todo_id todo) (updatedTodo todo))
              in case ex of
                   Inr u \<Rightarrow>
                     (let n = int (length (filter
                                (\<lambda>t. if todo_id t = todo_id todo
                                     then truthy (completed (updatedTodo todo))
                                     else truthy (completed t)) (todos st)))
                      in (st1\<lparr>todos := map (\<lambda>t. if todo_id t = todo_id todo
                                              then updatedTodo todo else t) (todos st),
                              summary := \<lparr>total = int (length (todos st)), completed_count = n,
                                           pending = int (length (todos st)) - n\<rparr>,
                              loadingAction := None\<rparr>,
                          [msg]))
                 | Inl e \<Rightarrow>
                     (st1\<lparr>loadingAction := None\<rparr>,
                      [msg, ConsoleError,
                       Alert ''Error'' ''Failed to update todo. Please try again.'']))))"

definition deleteTodo :: "hooks \<Rightarrow> error + unit \<Rightarrow> string \<Rightarrow> state \<Rightarrow> state \<times> event list" where
  "deleteTodo h ex todoId st =
     (case account h of
        None \<Rightarrow> (st, [])
      | Some owner \<Rightarrow>
          (if \<not> client h then (st, [])
           else
             (let st1 = st\<lparr>loadingAction := Some (ActDelete, todoId)\<rparr>;
                  msg = Execute owner (MsgDelete ''todos'' todoId)
              in case ex of
                   Inr u \<Rightarrow>
                     (let n = int (length (filter
                                (\<lambda>t. todo_id t \<noteq> todoId \<and> truthy (completed t)) (todos st)))
                      in (st1\<lparr>todos := filter (\<lambda>t. todo_id t \<noteq> todoId) (todos st),
                              summary := \<lparr>total = int (length (todos st)) - 1,
                                           completed_count = n,
                                           pending = int (length (todos st)) - 1 - n\<rparr>,
                              loadingAction := None\<rparr>,
                          [msg]))
                 | Inl e \<Rightarrow>
                     (st1\<lparr>loadingAction := None\<rparr>,
                      [msg, ConsoleError,
                       Alert ''Error'' ''Failed to delete todo. Please try again.'']))))"

section \<open>addTodo\<close>

text \<open>\<^verbatim>\<open>response?.documents\<close> and \<^verbatim>\<open>some(([id]) => id === todoId)\<close>; a query that throws
  is caught inside the loop and finds nothing.\<close>

definition found :: "query_result \<Rightarrow> string \<Rightarrow> bool" where
  "found r todoId =
     (case r of
        Inl e \<Rightarrow> False
      | Inr None \<Rightarrow> False
      | Inr (Some resp) \<Rightarrow>
          (case documents resp of
             None \<Rightarrow> False
           | Some docs \<Rightarrow> list_ex (\<lambda>p. fst p = todoId) docs))"

text \<open>The confirmation loop (\<^verbatim>\<open>maxRetries = 10\<close>, \<^verbatim>\<open>delay = 2000\<close>). \<open>q k\<close> is the outcome
  of the \<open>k\<close>-th listing query the operation issues, counted from 0; the loop issues one
  per iteration, so inside it \<open>k\<close> is \<open>retries\<close>. It returns the number of queries issued
  and its events.\<close>

function confirm_loop ::
  "(nat \<Rightarrow> query_result) \<Rightarrow> string \<Rightarrow> string \<Rightarrow> nat \<Rightarrow> nat \<times> event list" where
  "confirm_loop q owner todoId retries =
     (if retries < 10 then
        (if found (q retries) todoId then (Suc retries, [QueryUserDocuments owner ''todos''])
         else
           (case confirm_loop q owner todoId (Suc retries) of
              (n, evs) \<Rightarrow>
                (n, [QueryUserDocuments owner ''todos'']
                    @ (if isl (q retries) then [ConsoleLog] else [])
                    @ (if Suc retries < 10 then [Sleep 2000] else [])
                    @ evs)))
      else (retries, []))"
  by pat_completeness auto
termination
  by (relation "measure (\<lambda>(q, owner, todoId, retries). 10 - retries)") auto

declare confirm_loop.simps [simp del]

text \<open>\<open>now_id\<close> is \<^verbatim>\<open>Date.now().toString()\<close> and \<open>now_iso\<close> is
  \<^verbatim>\<open>new Date().toISOString()\<close>, as read when the operation starts. \<open>trim\<close> is the
  platform's \<^verbatim>\<open>String.prototype.trim\<close>, a parameter: it strips the white space and the
  line terminators of Unicode from both ends. \<open>newTodo\<close> is the object the operation sends,
  built from the trimmed input.\<close>

definition newTodo :: "string \<Rightarrow> string \<Rightarrow> string \<Rightarrow> Todo" where
  "newTodo todoId trimmed now_iso =
     \<lparr>todo_id = todoId,
      title = Some (JStr trimmed),
      todo_text = Some (JStr trimmed),
      completed = Some (JBool False),
      created_at = Some (JStr now_iso)\<rparr>"

definition addTodo ::
  "hooks \<Rightarrow> (string \<Rightarrow> string) \<Rightarrow> (string \<Rightarrow> json option) \<Rightarrow> (jsval \<Rightarrow> error + int option)
     \<Rightarrow> string \<Rightarrow> string \<Rightarrow> error + unit \<Rightarrow> (nat \<Rightarrow> query_result) \<Rightarrow> state
     \<Rightarrow> state \<times> event list" where
  "addTodo h trim JSON_parse getTime now_id now_iso ex q st =
     (case account h of
        None \<Rightarrow> (st, [])
      | Some owner \<Rightarrow>
          (if \<not> client h \<or> trim (newTodoText st) = [] \<or> \<not> queryClient h then (st, [])
           else
             (let todo = newTodo now_id (trim (newTodoText st)) now_iso;
                  msg = Execute owner (MsgSet ''todos'' now_id todo);
                  st1 = st\<lparr>loading := True\<rparr>
              in case ex of
                   Inr u \<Rightarrow>
                     (case confirm_loop q owner now_id 0 of
                        (n, evs) \<Rightarrow>
                          (case fetchTodos h JSON_parse getTime (q n)
                                  (st1\<lparr>newTodoText := []\<rparr>) of
                             (st2, evs') \<Rightarrow> (st2\<lparr>loading := False\<rparr>, msg # evs @ evs')))
                 | Inl e \<Rightarrow>
                     (st1\<lparr>loading := False\<rparr>,
                      [msg, ConsoleError,
                       Alert ''Error'' ''Failed to add todo. Please try again.'']))))"

section \<open>retryOperation\<close>

text \<open>\<open>operation i\<close> is the outcome of the invocation made at loop index \<open>i\<close>. The
  result is \<open>Inl lastError\<close> when the function throws (\<open>lastError\<close> starts as \<^verbatim>\<open>null\<close>,
  here \<open>None\<close>).\<close>

function retry_loop ::
  "(nat \<Rightarrow> 'e + 'a) \<Rightarrow> int \<Rightarrow> int \<Rightarrow> nat \<Rightarrow> 'e option \<Rightarrow> ('e option + 'a) \<times> event list" where
  "retry_loop operation maxRetries delay i lastError =
     (if int i < maxRetries then
        (case operation i of
           Inr v \<Rightarrow> (Inr v, [Invoke i])
         | Inl e \<Rightarrow>
             (case retry_loop operation maxRetries delay (Suc i) (Some e) of
                (r, evs) \<Rightarrow>
                  (r, [Invoke i, ConsoleLog]
                      @ (if int i < maxRetries - 1 then [Sleep (delay * 2 ^ i)] else [])
                      @ evs)))
      else (Inl lastError, []))"
  by pat_completeness auto
termination
  by (relation "measure (\<lambda>(operation, maxRetries, delay, i, lastError). nat (maxRetries - int i))")
    auto

definition retryOperation ::
  "(nat \<Rightarrow> 'e + 'a) \<Rightarrow> int \<Rightarrow> int \<Rightarrow> ('e option + 'a) \<times> event list" where
  "retryOperation operation maxRetries delay = retry_loop operation maxRetries delay 0 None"

section \<open>The guards at module initialisation\<close>

text \<open>\<^verbatim>\<open>process.env\<close> as a map. \<^verbatim>\<open>!process.env.X\<close> holds when \<open>X\<close> is not set and when it is
  the empty string. Each module's initialisation returns the message of the error it
  throws, if it throws.\<close>

definition not_set :: "(string \<rightharpoonup> string) \<Rightarrow> string \<Rightarrow> bool" where
  "not_set env x = (case env x of None \<Rightarrow> True | Some v \<Rightarrow> v = [])"

definition index_init :: "(string \<rightharpoonup> string) \<Rightarrow> string option" where
  "index_init env =
     (if not_set env ''EXPO_PUBLIC_USER_MAP_CONTRACT_ADDRESS''
      then Some ''EXPO_PUBLIC_USER_MAP_CONTRACT_ADDRESS is not set in your environment file''
      else if not_set env ''EXPO_PUBLIC_DOCUSTORE_CONTRACT_ADDRESS''
      then Some ''EXPO_PUBLIC_DOCUSTORE_CONTRACT_ADDRESS is not set in your environment file''
      else None)"

definition profile_init :: "(string \<rightharpoonup> string) \<Rightarrow> string option" where
  "profile_init env =
     (if not_set env ''EXPO_PUBLIC_DOCUSTORE_CONTRACT_ADDRESS''
      then Some ''EXPO_PUBLIC_DOCUSTORE_CONTRACT_ADDRESS is not set in your environment file''
      else None)"

definition settings_init :: "(string \<rightharpoonup> string) \<Rightarrow> string option" where
  "settings_init env =
     (if not_set env ''EXPO_PUBLIC_DOCUSTORE_CONTRACT_ADDRESS''
      then Some ''EXPO_PUBLIC_DOCUSTORE_CONTRACT_ADDRESS is not set in your environment file''
      else None)"

text \<open>The errors the three screens throw when they are loaded.\<close>

definition startup_errors :: "(string \<rightharpoonup> string) \<Rightarrow> string list" where
  "startup_errors env =
     List.map_filter (\<lambda>m. m) [index_init env, profile_init env, settings_init env]"

section \<open>Reference notions for the properties\<close>

text \<open>What a listed document deserializes to, said without the control flow of the
  code: the payload is the value of \<^verbatim>\<open>doc.data\<close>, parsed when it is a string; a todo
  takes its id from the listing key and its other fields from the payload's members.
  \<open>None\<close> when there is no payload to read members from.\<close>

definition payload_of :: "(string \<Rightarrow> json option) \<Rightarrow> doc \<Rightarrow> json option" where
  "payload_of JSON_parse d =
     (case data d of None \<Rightarrow> None | Some (JStr s) \<Rightarrow> JSON_parse s | Some v \<Rightarrow> Some v)"

definition member :: "json \<Rightarrow> string \<Rightarrow> jsval" where
  "member v k = (case v of JObj kvs \<Rightarrow> map_of kvs k | _ \<Rightarrow> None)"

definition deserialized :: "(string \<Rightarrow> json option) \<Rightarrow> string \<times> doc \<Rightarrow> Todo option" where
  "deserialized JSON_parse p =
     (case payload_of JSON_parse (snd p) of
        None \<Rightarrow> None
      | Some JNull \<Rightarrow> None
      | Some v \<Rightarrow>
          Some \<lparr>todo_id = fst p, title = member v ''title'', todo_text = member v ''text'',
                completed = member v ''completed'', created_at = member v ''created_at''\<rparr>)"

text \<open>The creation time of a todo in milliseconds, where \<^verbatim>\<open>created_at\<close> is a valid date
  (\<open>None\<close> where it is not, or where reading it throws), and the order "newest first".\<close>

definition created_ms :: "(jsval \<Rightarrow> error + int option) \<Rightarrow> Todo \<Rightarrow> int option" where
  "created_ms getTime t = (case getTime (created_at t) of Inl e \<Rightarrow> None | Inr d \<Rightarrow> d)"

definition date_throws :: "(jsval \<Rightarrow> error + int option) \<Rightarrow> Todo \<Rightarrow> bool" where
  "date_throws getTime t = isl (getTime (created_at t))"

definition not_older :: "(jsval \<Rightarrow> error + int option) \<Rightarrow> Todo \<Rightarrow> Todo \<Rightarrow> bool" where
  "not_older getTime a b =
     (case created_ms getTime a of
        None \<Rightarrow> False
      | Some x \<Rightarrow> (case created_ms getTime b of None \<Rightarrow> False | Some y \<Rightarrow> y \<le> x))"

text \<open>The summary agrees with the cache.\<close>

definition summary_consistent :: "state \<Rightarrow> bool" where
  "summary_consistent st =
     (completed_count (summary st) + pending (summary st) = total (summary st)
      \<and> total (summary st) = int (length (todos st))
      \<and> completed_count (summary st)
          = int (length (filter (\<lambda>t. truthy (completed t)) (todos st))))"

text \<open>The number of listing queries the confirmation phase of \<^verbatim>\<open>addTodo\<close> has to
  issue: one more than the index of the first answer that lists the key, and the whole
  budget of 10 when none of the first 10 answers does. And a trace without its console
  lines.\<close>

definition polls :: "(nat \<Rightarrow> query_result) \<Rightarrow> string \<Rightarrow> nat" where
  "polls q todoId =
     (case find (\<lambda>k. found (q k) todoId) [0..<10] of None \<Rightarrow> 10 | Some k \<Rightarrow> Suc k)"

definition without_logs :: "event list \<Rightarrow> event list" where
  "without_logs evs = filter (\<lambda>e. e \<noteq> ConsoleLog \<and> e \<noteq> ConsoleError) evs"

section \<open>Concrete platform answers for the examples\<close>

text \<open>\<^verbatim>\<open>JSON.parse\<close> on the payloads used in the examples: each string with the value the
  parser returns for it. The only other payload of the examples, \<^verbatim>\<open>not json\<close>, is
  malformed. The fourth payload has no \<^verbatim>\<open>created_at\<close>.\<close>

definition example_parse :: "string \<Rightarrow> json option" where
  \<open>example_parse = map_of
     [(''{"title":"a","text":"a","completed":false,"created_at":"2024-01-01T00:00:00Z"}'',
       JObj [(''title'', JStr ''a''), (''text'', JStr ''a''), (''completed'', JBool False),
             (''created_at'', JStr ''2024-01-01T00:00:00Z'')]),
      (''{"title":"b","text":"b","completed":true,"created_at":"2024-01-02T00:00:00Z"}'',
       JObj [(''title'', JStr ''b''), (''text'', JStr ''b''), (''completed'', JBool True),
             (''created_at'', JStr ''2024-01-02T00:00:00Z'')]),
      (''{"title":"c","text":"c","completed":false,"created_at":"2024-01-01T00:00:00Z"}'',
       JObj [(''title'', JStr ''c''), (''text'', JStr ''c''), (''completed'', JBool False),
             (''created_at'', JStr ''2024-01-01T00:00:00Z'')]),
      (''{"title":"u","text":"u","completed":false}'',
       JObj [(''title'', JStr ''u''), (''text'', JStr ''u''), (''completed'', JBool False)])]\<close>

text \<open>\<^verbatim>\<open>new Date(v).getTime()\<close> on the values of \<^verbatim>\<open>created_at\<close> in the examples: the two
  timestamps (milliseconds since the epoch), and \<^verbatim>\<open>undefined\<close>, which gives NaN.\<close>

definition example_getTime :: "jsval \<Rightarrow> error + int option" where
  "example_getTime v =
     (case v of
        Some (JStr s) \<Rightarrow>
          Inr (map_of [(''2024-01-01T00:00:00Z'', 1704067200000),
                       (''2024-01-02T00:00:00Z'', 1704153600000)] s)
      | _ \<Rightarrow> Inr None)"

text \<open>\<^verbatim>\<open>String.prototype.trim\<close> on the input of the examples, which is ASCII: there the
  white space is the six characters below.\<close>

definition example_trim :: "string \<Rightarrow> string" where
  "example_trim s =
     rev (dropWhile (\<lambda>c. c \<in> set [CHR 0x09, CHR 0x0A, CHR 0x0B, CHR 0x0C, CHR 0x0D, CHR 0x20])
       (rev (dropWhile
          (\<lambda>c. c \<in> set [CHR 0x09, CHR 0x0A, CHR 0x0B, CHR 0x0C, CHR 0x0D, CHR 0x20]) s)))"

definition example_docs :: "(string \<times> doc) list" where
  \<open>example_docs =
     [(''1'', \<lparr>data = Some (JStr
        ''{"title":"a","text":"a","completed":false,"created_at":"2024-01-01T00:00:00Z"}'')\<rparr>),
      (''2'', \<lparr>data = Some (JStr
        ''{"title":"b","text":"b","completed":true,"created_at":"2024-01-02T00:00:00Z"}'')\<rparr>),
      (''3'', \<lparr>data = Some (JStr
        ''{"title":"c","text":"c","completed":false,"created_at":"2024-01-01T00:00:00Z"}'')\<rparr>)]\<close>

text \<open>A listing whose second document has no \<^verbatim>\<open>created_at\<close>, between an older and a
  newer one.\<close>

definition undated_docs :: "(string \<times> doc) list" where
  \<open>undated_docs =
     [(''1'', \<lparr>data = Some (JStr
        ''{"title":"a","text":"a","completed":false,"created_at":"2024-01-01T00:00:00Z"}'')\<rparr>),
      (''2'', \<lparr>data = Some (JStr ''{"title":"u","text":"u","completed":false}'')\<rparr>),
      (''3'', \<lparr>data = Some (JStr
        ''{"title":"b","text":"b","completed":true,"created_at":"2024-01-02T00:00:00Z"}'')\<rparr>)]\<close>

definition example_todo :: "string \<Rightarrow> string \<Rightarrow> bool \<Rightarrow> string \<Rightarrow> Todo" where
  "example_todo i s b ts =
     \<lparr>todo_id = i, title = Some (JStr s), todo_text = Some (JStr s), completed = Some (JBool b),
      created_at = Some (JStr ts)\<rparr>"

definition example_hooks :: hooks where
  "example_hooks = \<lparr>client = True, account = Some ''xion1owner'', queryClient = True\<rparr>"

definition example_state :: state where
  "example_state =
     \<lparr>loading = False, loadingAction = None, refreshing = False,
      todos = [example_todo ''2'' ''b'' True ''2024-01-02T00:00:00Z'',
               example_todo ''1'' ''a'' False ''2024-01-01T00:00:00Z'',
               example_todo ''3'' ''c'' False ''2024-01-01T00:00:00Z''],
      summary = \<lparr>total = 3, completed_count = 1, pending = 2\<rparr>,
      newTodoText = ''  buy milk ''\<rparr>"

section \<open>Properties of the startup guards\<close>

text \<open>
  C9 (as amended). When the document-store contract address is not set (absent from the
  environment, or empty), each of the three screens throws a fatal error when it is
  loaded; the profile and the settings screen throw nothing when it is set. The
  treasury address is not read by these guards: setting or removing it changes the
  outcome of none of them.
\<close>

theorem startup_guards:
  "(not_set env ''EXPO_PUBLIC_DOCUSTORE_CONTRACT_ADDRESS'' \<longrightarrow>
      index_init env \<noteq> None \<and> profile_init env \<noteq> None \<and> settings_init env \<noteq> None
      \<and> length (startup_errors env) = 3)
   \<and> (profile_init env = None) = (\<not> not_set env ''EXPO_PUBLIC_DOCUSTORE_CONTRACT_ADDRESS'')
   \<and> (settings_init env = None) = (\<not> not_set env ''EXPO_PUBLIC_DOCUSTORE_CONTRACT_ADDRESS'')
   \<and> index_init (env(''EXPO_PUBLIC_TREASURY_CONTRACT_ADDRESS'' := v)) = index_init env
   \<and> profile_init (env(''EXPO_PUBLIC_TREASURY_CONTRACT_ADDRESS'' := v)) = profile_init env
   \<and> settings_init (env(''EXPO_PUBLIC_TREASURY_CONTRACT_ADDRESS'' := v)) = settings_init env
   \<and> startup_errors (env(''EXPO_PUBLIC_TREASURY_CONTRACT_ADDRESS'' := v)) = startup_errors env"
  by (simp add: startup_errors_def index_init_def profile_init_def settings_init_def
      not_set_def)

theorem startup_guards_witness:
  "index_init (map_of [(''EXPO_PUBLIC_TREASURY_CONTRACT_ADDRESS'', ''xion1treasury'')]) \<noteq> None
   \<and> profile_init (map_of [(''EXPO_PUBLIC_TREASURY_CONTRACT_ADDRESS'', ''xion1treasury'')])
       \<noteq> None
   \<and> settings_init (map_of [(''EXPO_PUBLIC_TREASURY_CONTRACT_ADDRESS'', ''xion1treasury'')])
       \<noteq> None
   \<and> length (startup_errors
        (map_of [(''EXPO_PUBLIC_TREASURY_CONTRACT_ADDRESS'', ''xion1treasury'')])) = 3"
proof -
  have unset: "not_set (map_of [(''EXPO_PUBLIC_TREASURY_CONTRACT_ADDRESS'', ''xion1treasury'')])
                 ''EXPO_PUBLIC_DOCUSTORE_CONTRACT_ADDRESS''"
    by (simp add: not_set_def)
  show ?thesis
    by (rule startup_guards [THEN conjunct1, THEN mp, OF unset])
qed

text \<open>
  C9 as stated fails twice. With the document-store address set and no treasury
  address, no guard throws (the user-map address is set as well); with the
  document-store and the treasury address both set, the todo screen still throws,
  for the user-map address.
\<close>

theorem startup_guards_counterexample:
  "startup_errors (map_of [(''EXPO_PUBLIC_USER_MAP_CONTRACT_ADDRESS'', ''xion1usermap''),
                           (''EXPO_PUBLIC_DOCUSTORE_CONTRACT_ADDRESS'', ''xion1docustore'')]) = []
   \<and> startup_errors (map_of [(''EXPO_PUBLIC_DOCUSTORE_CONTRACT_ADDRESS'', ''xion1docustore''),
                           (''EXPO_PUBLIC_TREASURY_CONTRACT_ADDRESS'', ''xion1treasury'')])
       = [''EXPO_PUBLIC_USER_MAP_CONTRACT_ADDRESS is not set in your environment file'']"
  by (simp add: startup_errors_def index_init_def profile_init_def settings_init_def
      not_set_def)

section \<open>Properties of retryOperation\<close>

lemma retry_loop_success:
  "i \<le> k \<Longrightarrow> int k < m \<Longrightarrow> operation k = Inr v \<Longrightarrow> (\<forall>j. i \<le> j \<and> j < k \<longrightarrow> isl (operation j))
   \<Longrightarrow> retry_loop operation m d i l =
       (Inr v, concat (map (\<lambda>j. [Invoke j, ConsoleLog, Sleep (d * 2 ^ j)]) [i..<k]) @ [Invoke k])"
proof (induction "k - i" arbitrary: i l)
  case 0
  then have "i = k" by simp
  with 0 show ?case by simp
next
  case (Suc n)
  then have ik: "i < k" by simp
  with Suc.prems obtain e where e: "operation i = Inl e"
    by (metis isl_def le_refl)
  have later: "retry_loop operation m d (Suc i) (Some e) =
       (Inr v, concat (map (\<lambda>j. [Invoke j, ConsoleLog, Sleep (d * 2 ^ j)]) [Suc i..<k]) @ [Invoke k])"
    using Suc.hyps Suc.prems ik by (intro Suc.hyps(1)) auto
  have lt: "int i < m - 1" using ik Suc.prems(2) by linarith
  have "int i < m" using lt by simp
  then show ?case using e later lt ik by (simp add: upt_conv_Cons)
qed

lemma retry_loop_fail:
  "int i < m \<Longrightarrow> (\<forall>j. i \<le> j \<and> int j < m \<longrightarrow> isl (operation j))
   \<Longrightarrow> retry_loop operation m d i l =
       (Inl (Some (projl (operation (nat m - 1)))),
        concat (map (\<lambda>j. [Invoke j, ConsoleLog, Sleep (d * 2 ^ j)]) [i..<nat m - 1])
          @ [Invoke (nat m - 1), ConsoleLog])"
proof (induction "nat m - Suc i" arbitrary: i l)
  case 0
  then have im: "i = nat m - 1" by linarith
  from 0 obtain e where e: "operation i = Inl e" by (metis isl_def le_refl)
  have "\<not> int (Suc i) < m" using im 0 by linarith
  then have "retry_loop operation m d (Suc i) (Some e) = (Inl (Some e), [])" by simp
  moreover have "\<not> int i < m - 1" using im 0 by linarith
  ultimately show ?case using 0(2) e im by simp
next
  case (Suc n)
  then have lt: "int i < m - 1" by linarith
  from Suc obtain e where e: "operation i = Inl e" by (metis isl_def le_refl)
  have later: "retry_loop operation m d (Suc i) (Some e) =
       (Inl (Some (projl (operation (nat m - 1)))),
        concat (map (\<lambda>j. [Invoke j, ConsoleLog, Sleep (d * 2 ^ j)]) [Suc i..<nat m - 1])
          @ [Invoke (nat m - 1), ConsoleLog])"
    using Suc.hyps Suc.prems lt by (intro Suc.hyps(1)) auto
  have "i < nat m - 1" using lt by linarith
  then show ?case using e later lt Suc.prems(1) by (simp add: upt_conv_Cons)
qed

text \<open>
  C7. For a maximum attempt count \<open>n \<ge> 1\<close> and a base delay \<open>d\<close>: when the invocation of
  index \<open>k < n\<close> is the first to succeed, the operation has been invoked \<open>k + 1\<close> times,
  each failed attempt \<open>j\<close> was followed by a wait of \<open>d * 2 ^ j\<close> before the next, and
  the result is that success; when all \<open>n\<close> invocations fail, the operation has been
  invoked \<open>n\<close> times with the same waits between them (none after the last) and the
  failure of the last attempt is thrown.
\<close>

theorem retryOperation_bounded_backoff:
  assumes "1 \<le> n"
  shows "(\<forall>k v. k < n \<and> operation k = Inr v \<and> (\<forall>j<k. isl (operation j)) \<longrightarrow>
            retryOperation operation (int n) d =
              (Inr v, concat (map (\<lambda>j. [Invoke j, ConsoleLog, Sleep (d * 2 ^ j)]) [0..<k])
                        @ [Invoke k]))
       \<and> ((\<forall>j<n. isl (operation j)) \<longrightarrow>
            retryOperation operation (int n) d =
              (Inl (Some (projl (operation (n - 1)))),
               concat (map (\<lambda>j. [Invoke j, ConsoleLog, Sleep (d * 2 ^ j)]) [0..<n - 1])
                 @ [Invoke (n - 1), ConsoleLog]))"
proof (intro conjI allI impI)
  fix k v
  assume a: "k < n \<and> operation k = Inr v \<and> (\<forall>j<k. isl (operation j))"
  then show "retryOperation operation (int n) d =
      (Inr v, concat (map (\<lambda>j. [Invoke j, ConsoleLog, Sleep (d * 2 ^ j)]) [0..<k]) @ [Invoke k])"
    unfolding retryOperation_def by (intro retry_loop_success) auto
next
  assume a: "\<forall>j<n. isl (operation j)"
  have "retry_loop operation (int n) d 0 None =
      (Inl (Some (projl (operation (nat (int n) - 1)))),
       concat (map (\<lambda>j. [Invoke j, ConsoleLog, Sleep (d * 2 ^ j)]) [0..<nat (int n) - 1])
         @ [Invoke (nat (int n) - 1), ConsoleLog])"
    using assms a by (intro retry_loop_fail) auto
  then show "retryOperation operation (int n) d =
      (Inl (Some (projl (operation (n - 1)))),
       concat (map (\<lambda>j. [Invoke j, ConsoleLog, Sleep (d * 2 ^ j)]) [0..<n - 1])
         @ [Invoke (n - 1), ConsoleLog])"
    unfolding retryOperation_def by simp
qed

theorem retryOperation_bounded_backoff_witness:
  "retryOperation (\<lambda>i. if i < 2 then Inl (RemoteError ''timeout'') else Inr (7::nat)) 3 1000 =
     (Inr 7, [Invoke 0, ConsoleLog, Sleep 1000, Invoke 1, ConsoleLog, Sleep 2000, Invoke 2])
   \<and> retryOperation (\<lambda>i. (Inl i :: nat + nat)) 3 1000 =
     (Inl (Some 2), [Invoke 0, ConsoleLog, Sleep 1000, Invoke 1, ConsoleLog, Sleep 2000,
                     Invoke 2, ConsoleLog])"
proof -
  have n: "1 \<le> (3::nat)" by simp
  have s: "retryOperation (\<lambda>i. if i < 2 then Inl (RemoteError ''timeout'') else Inr (7::nat))
             (int 3) 1000 =
     (Inr 7, concat (map (\<lambda>j. [Invoke j, ConsoleLog, Sleep (1000 * 2 ^ j)]) [0..<2])
               @ [Invoke 2])"
    by (rule retryOperation_bounded_backoff [OF n, THEN conjunct1, THEN spec, THEN spec, THEN mp])
      simp
  have f: "retryOperation (\<lambda>i. (Inl i :: nat + nat)) (int 3) 1000 =
     (Inl (Some (projl (Inl (3 - 1) :: nat + nat))),
      concat (map (\<lambda>j. [Invoke j, ConsoleLog, Sleep (1000 * 2 ^ j)]) [0..<3 - 1])
        @ [Invoke (3 - 1), ConsoleLog])"
    using retryOperation_bounded_backoff [OF n, of "\<lambda>i. (Inl i :: nat + nat)" 1000]
    by simp
  have u: "[0..<2] = [0, Suc 0]" by (simp add: upt_rec)
  show ?thesis using s f by (simp add: u)
qed

section \<open>Properties of the sort\<close>

text \<open>Two facts about \<open>array_sort\<close>. With a comparator that does not throw on the elements
  of the array, it returns a permutation of the array. With a comparator that is the
  difference of a key, it returns the array sorted by descending key, elements of equal
  key in the order they had.\<close>

lemma sort_compare_total: "\<not> isl (cmp x y) \<Longrightarrow> \<exists>v. sort_compare cmp x y = Inr v"
  by (cases "cmp x y") (auto simp: sort_compare_def split: option.splits)

lemma sort_compare_key:
  "cmp x y = Inr (Some (key y - key x)) \<Longrightarrow> sort_compare cmp x y = Inr (key y - key x)"
  by (simp add: sort_compare_def)

lemma take_run_total:
  assumes "\<forall>x\<in>S. \<forall>y\<in>S. \<not> isl (cmp x y)" and "p \<in> S" and "set xs \<subseteq> S"
  shows "\<exists>run later. take_run cmp d p xs = Inr (run, later) \<and> run @ later = xs"
  using assms(2,3)
proof (induction xs arbitrary: p)
  case Nil
  then show ?case by simp
next
  case (Cons x xs)
  from Cons.prems have x: "x \<in> S" and xs: "set xs \<subseteq> S" by simp_all
  have "\<not> isl (cmp x p)" using assms(1) x Cons.prems(1) by blast
  then obtain v where v: "sort_compare cmp x p = Inr v"
    using sort_compare_total [of cmp x p] by blast
  from Cons.IH [OF x xs] obtain run later
    where r: "take_run cmp d x xs = Inr (run, later)" "run @ later = xs"
    by blast
  show ?case
  proof (cases "if d then 0 \<le> v else v < 0")
    case True
    then show ?thesis using v by simp
  next
    case False
    then show ?thesis using v r by simp
  qed
qed

lemma count_and_make_run_total:
  assumes "\<forall>x\<in>S. \<forall>y\<in>S. \<not> isl (cmp x y)" and "a \<in> S" and "b \<in> S" and "set rest \<subseteq> S"
  shows "\<exists>run later. count_and_make_run cmp a b rest = Inr (run, later)
           \<and> mset run + mset later = mset (a # b # rest)"
proof -
  have "\<not> isl (cmp b a)" using assms by blast
  then obtain v where v: "sort_compare cmp b a = Inr v"
    using sort_compare_total [of cmp b a] by blast
  obtain run later where r: "take_run cmp (v < 0) b rest = Inr (run, later)" "run @ later = rest"
    using take_run_total [OF assms(1,3,4), of "v < 0"] by blast
  have c: "count_and_make_run cmp a b rest =
      Inr (if v < 0 then rev (a # b # run) else a # b # run, later)"
    by (simp add: count_and_make_run_def v r(1))
  have "mset (if v < 0 then rev (a # b # run) else a # b # run) + mset later
        = mset (a # b # rest)"
    using r(2) by auto
  then show ?thesis using c by blast
qed

lemma binary_search_total:
  assumes "\<forall>x\<in>S. \<forall>y\<in>S. \<not> isl (cmp x y)" and "p \<in> S" and "set work \<subseteq> S"
    and "left \<le> right" and "right \<le> length work"
  shows "\<exists>i. binary_search cmp p work left right = Inr i \<and> left \<le> i \<and> i \<le> right"
  using assms(4,5)
proof (induction "right - left" arbitrary: left right rule: less_induct)
  case less
  show ?case
  proof (cases "left < right")
    case False
    then have "binary_search cmp p work left right = Inr left"
      by (subst binary_search.simps) simp
    then show ?thesis using less.prems by simp
  next
    case True
    define mid where "mid = left + (right - left) div 2"
    have mid: "left \<le> mid" "mid < right" using True by (auto simp: mid_def)
    then have "work ! mid \<in> set work" using less.prems by (intro nth_mem) simp
    then have "\<not> isl (cmp p (work ! mid))" using assms(1,2,3) by blast
    then obtain v where v: "sort_compare cmp p (work ! mid) = Inr v"
      using sort_compare_total [of cmp p "work ! mid"] by blast
    have step: "binary_search cmp p work left right =
        (if v < 0 then binary_search cmp p work left mid
         else binary_search cmp p work (mid + 1) right)"
      using True v by (subst binary_search.simps) (simp add: mid_def)
    show ?thesis
    proof (cases "v < 0")
      case neg: True
      have "mid - left < right - left" using mid by simp
      from less.hyps [OF this] mid less.prems
      obtain i where "binary_search cmp p work left mid = Inr i" "left \<le> i" "i \<le> mid"
        by auto
      then show ?thesis using step neg mid by auto
    next
      case nonneg: False
      have "right - (mid + 1) < right - left" using mid by simp
      from less.hyps [OF this] mid less.prems
      obtain i where "binary_search cmp p work (mid + 1) right = Inr i" "mid + 1 \<le> i" "i \<le> right"
        by auto
      then show ?thesis using step nonneg mid by auto
    qed
  qed
qed

lemma mset_insert_at: "mset (take i xs @ p # drop i xs) = add_mset p (mset xs)"
proof -
  have "mset (take i xs) + mset (drop i xs) = mset (take i xs @ drop i xs)"
    by (simp only: mset_append)
  then show ?thesis by simp
qed

lemma binary_insertion_total:
  assumes "\<forall>x\<in>S. \<forall>y\<in>S. \<not> isl (cmp x y)" and "set work \<subseteq> S" and "set later \<subseteq> S"
  shows "\<exists>ys. binary_insertion cmp work later = Inr ys \<and> mset ys = mset work + mset later"
  using assms(2,3)
proof (induction later arbitrary: work)
  case Nil
  then show ?case by simp
next
  case (Cons p later)
  then have p: "p \<in> S" and l: "set later \<subseteq> S" by simp_all
  obtain i where i: "binary_search cmp p work 0 (length work) = Inr i"
    using binary_search_total [OF assms(1) p Cons.prems(1), of 0 "length work"] by auto
  define w where "w = take i work @ p # drop i work"
  have "set w \<subseteq> S" using Cons.prems(1) p
    by (auto simp: w_def dest: in_set_takeD in_set_dropD)
  from Cons.IH [OF this l] obtain ys where ys: "binary_insertion cmp w later = Inr ys"
      "mset ys = mset w + mset later"
    by blast
  have "mset w = add_mset p (mset work)" unfolding w_def by (rule mset_insert_at)
  then show ?case using i ys by (simp add: w_def)
qed

lemma array_sort_total:
  assumes "\<forall>x\<in>set xs. \<forall>y\<in>set xs. \<not> isl (cmp x y)"
  shows "\<exists>ys. array_sort cmp xs = Inr ys \<and> mset ys = mset xs"
proof (cases xs)
  case Nil
  then show ?thesis by simp
next
  case (Cons a tl)
  show ?thesis
  proof (cases tl)
    case Nil
    then show ?thesis using Cons by simp
  next
    case (Cons b rest)
    then have xs: "xs = a # b # rest" using \<open>xs = a # tl\<close> by simp
    have "a \<in> set xs" "b \<in> set xs" "set rest \<subseteq> set xs" using xs by auto
    from count_and_make_run_total [OF assms this]
    obtain run later where r: "count_and_make_run cmp a b rest = Inr (run, later)"
        "mset run + mset later = mset xs"
      using xs by auto
    then have "set_mset (mset run + mset later) = set xs" by simp
    then have "set run \<subseteq> set xs" "set later \<subseteq> set xs" by auto
    from binary_insertion_total [OF assms this]
    obtain ys where "binary_insertion cmp run later = Inr ys"
        "mset ys = mset run + mset later"
      by blast
    then show ?thesis using r xs by simp
  qed
qed

lemma take_run_key:
  assumes "\<forall>x\<in>S. \<forall>y\<in>S. cmp x y = Inr (Some (key y - key x))"
    and "p \<in> S" and "set xs \<subseteq> S" and "take_run cmp d p xs = Inr (run, later)"
  shows "run @ later = xs
       \<and> (d \<longrightarrow> sorted_wrt (\<lambda>a b. key a < key b) (p # run))
       \<and> (\<not> d \<longrightarrow> sorted_wrt (\<lambda>a b. key b \<le> key a) (p # run))"
  using assms(2-4)
proof (induction xs arbitrary: p run)
  case Nil
  then show ?case by auto
next
  case (Cons x xs)
  from Cons.prems have x: "x \<in> S" and xs: "set xs \<subseteq> S" by simp_all
  have c: "sort_compare cmp x p = Inr (key p - key x)"
    using assms(1) x Cons.prems(1) by (intro sort_compare_key) blast
  have t1: "transp (\<lambda>a b. key a < key b)" and t2: "transp (\<lambda>a b. key b \<le> key a)"
    by (auto simp: transp_def)
  show ?case
  proof (cases d)
    case True
    show ?thesis
    proof (cases "key p < key x")
      case stop: False
      then have "take_run cmp d p (x # xs) = Inr ([], x # xs)" using True c by simp
      then show ?thesis using Cons.prems(3) True by simp
    next
      case go: True
      then have e: "take_run cmp d p (x # xs) =
          (case take_run cmp d x xs of Inl e \<Rightarrow> Inl e | Inr (r, l) \<Rightarrow> Inr (x # r, l))"
        using True c by simp
      then obtain r where r: "take_run cmp d x xs = Inr (r, later)" "run = x # r"
        using Cons.prems(3) by (auto split: sum.splits)
      from Cons.IH [OF x xs r(1)] True
      have "r @ later = xs" "sorted_wrt (\<lambda>a b. key a < key b) (x # r)" by simp_all
      then show ?thesis using go True r(2)
        by (simp add: sorted_wrt2 [OF t1] del: sorted_wrt.simps)
    qed
  next
    case False
    show ?thesis
    proof (cases "key x \<le> key p")
      case stop: False
      then have "take_run cmp d p (x # xs) = Inr ([], x # xs)" using False c by simp
      then show ?thesis using Cons.prems(3) False by simp
    next
      case go: True
      then have e: "take_run cmp d p (x # xs) =
          (case take_run cmp d x xs of Inl e \<Rightarrow> Inl e | Inr (r, l) \<Rightarrow> Inr (x # r, l))"
        using False c by simp
      then obtain r where r: "take_run cmp d x xs = Inr (r, later)" "run = x # r"
        using Cons.prems(3) by (auto split: sum.splits)
      from Cons.IH [OF x xs r(1)] False
      have "r @ later = xs" "sorted_wrt (\<lambda>a b. key b \<le> key a) (x # r)" by simp_all
      then show ?thesis using go False r(2)
        by (simp add: sorted_wrt2 [OF t2] del: sorted_wrt.simps)
    qed
  qed
qed

lemma filter_rev_increasing:
  "sorted_wrt (\<lambda>a b. key a < (key b :: int)) xs
   \<Longrightarrow> filter (\<lambda>t. key t = k) (rev xs) = filter (\<lambda>t. key t = k) xs"
proof (induction xs)
  case Nil
  then show ?case by simp
next
  case (Cons x xs)
  then have ih: "filter (\<lambda>t. key t = k) (rev xs) = filter (\<lambda>t. key t = k) xs" by simp
  show ?case
  proof (cases "key x = k")
    case True
    then have "\<forall>y\<in>set xs. key y \<noteq> k" using Cons.prems by auto
    then have "filter (\<lambda>t. key t = k) xs = []" by (simp add: filter_empty_conv)
    then show ?thesis using ih True by simp
  next
    case False
    then show ?thesis using ih by simp
  qed
qed

lemma count_and_make_run_key:
  assumes "\<forall>x\<in>S. \<forall>y\<in>S. cmp x y = Inr (Some (key y - key x))"
    and "a \<in> S" and "b \<in> S" and "set rest \<subseteq> S"
    and "count_and_make_run cmp a b rest = Inr (run, later)"
  shows "\<exists>pre. pre @ later = a # b # rest
           \<and> sorted_wrt (\<lambda>x y. key y \<le> key x) run
           \<and> (\<forall>k. filter (\<lambda>t. key t = k) run = filter (\<lambda>t. key t = k) pre)"
proof -
  have c: "sort_compare cmp b a = Inr (key a - key b)"
    using assms(1-3) by (intro sort_compare_key) blast
  from assms(5) obtain r where r: "take_run cmp (key a - key b < 0) b rest = Inr (r, later)"
    and run: "run = (if key a - key b < 0 then rev (a # b # r) else a # b # r)"
    by (auto simp: count_and_make_run_def c split: sum.splits)
  from take_run_key [OF assms(1,3,4) r] have app: "r @ later = rest"
    and s1: "key a - key b < 0 \<Longrightarrow> sorted_wrt (\<lambda>x y. key x < key y) (b # r)"
    and s2: "\<not> key a - key b < 0 \<Longrightarrow> sorted_wrt (\<lambda>x y. key y \<le> key x) (b # r)"
    by blast+
  have t1: "transp (\<lambda>x y. key x < key y)" and t2: "transp (\<lambda>x y. key y \<le> key x)"
    by (auto simp: transp_def)
  have pre: "(a # b # r) @ later = a # b # rest" using app by simp
  show ?thesis
  proof (cases "key a - key b < 0")
    case True
    then have inc: "sorted_wrt (\<lambda>x y. key x < key y) (a # b # r)"
      using s1 by (simp add: sorted_wrt2 [OF t1] del: sorted_wrt.simps)
    then have "sorted_wrt (\<lambda>x y. key y < key x) (rev (a # b # r))"
      by (simp only: sorted_wrt_rev)
    then have "sorted_wrt (\<lambda>x y. key y \<le> key x) (rev (a # b # r))"
      by (rule sorted_wrt_mono_rel [rotated]) simp
    moreover have "\<forall>k. filter (\<lambda>t. key t = k) (rev (a # b # r))
                     = filter (\<lambda>t. key t = k) (a # b # r)"
      using filter_rev_increasing [OF inc] by blast
    ultimately show ?thesis using run True pre by metis
  next
    case False
    then have "sorted_wrt (\<lambda>x y. key y \<le> key x) (a # b # r)"
      using s2 by (simp add: sorted_wrt2 [OF t2] del: sorted_wrt.simps)
    then show ?thesis using run False pre by metis
  qed
qed

lemma binary_search_key:
  assumes "\<forall>x\<in>S. \<forall>y\<in>S. cmp x y = Inr (Some (key y - key x))"
    and "p \<in> S" and "set work \<subseteq> S" and "sorted_wrt (\<lambda>x y. key y \<le> key x) work"
    and "left \<le> right" and "right \<le> length work"
    and "\<forall>j<left. key p \<le> key (work ! j)"
    and "\<forall>j. right \<le> j \<and> j < length work \<longrightarrow> key (work ! j) < key p"
    and "binary_search cmp p work left right = Inr i"
  shows "i \<le> length work \<and> (\<forall>j<i. key p \<le> key (work ! j))
       \<and> (\<forall>j. i \<le> j \<and> j < length work \<longrightarrow> key (work ! j) < key p)"
  using assms(5-9)
proof (induction "right - left" arbitrary: left right rule: less_induct)
  case less
  show ?case
  proof (cases "left < right")
    case False
    then have "binary_search cmp p work left right = Inr left"
      by (subst binary_search.simps) simp
    then have "i = left" using less.prems(5) by simp
    moreover have "left = right" using False less.prems(1) by simp
    ultimately show ?thesis using less.prems by simp
  next
    case True
    define mid where "mid = left + (right - left) div 2"
    have mid: "left \<le> mid" "mid < right" "mid < length work"
      using True less.prems(2) by (auto simp: mid_def)
    then have "work ! mid \<in> S" using assms(3) by (meson nth_mem subsetD)
    then have v: "sort_compare cmp p (work ! mid) = Inr (key (work ! mid) - key p)"
      using assms(1,2) by (intro sort_compare_key) blast
    have step: "binary_search cmp p work left right =
        (if key (work ! mid) - key p < 0 then binary_search cmp p work left mid
         else binary_search cmp p work (mid + 1) right)"
      using True v by (subst binary_search.simps) (simp add: mid_def)
    show ?thesis
    proof (cases "key (work ! mid) - key p < 0")
      case neg: True
      have m: "mid - left < right - left" using mid by simp
      have upper: "\<forall>j. mid \<le> j \<and> j < length work \<longrightarrow> key (work ! j) < key p"
      proof (intro allI impI)
        fix j assume j: "mid \<le> j \<and> j < length work"
        have "key (work ! j) \<le> key (work ! mid)"
        proof (cases "j = mid")
          case True then show ?thesis by simp
        next
          case False
          then have "mid < j" using j by simp
          then show ?thesis using sorted_wrt_nth_less [OF assms(4), of mid j] j by simp
        qed
        then show "key (work ! j) < key p" using neg by simp
      qed
      have "binary_search cmp p work left mid = Inr i" using step neg less.prems(5) by simp
      from less.hyps [OF m mid(1) _ less.prems(3) upper this] mid show ?thesis by simp
    next
      case nonneg: False
      have m: "right - (mid + 1) < right - left" using mid by simp
      have lower: "\<forall>j<mid + 1. key p \<le> key (work ! j)"
      proof (intro allI impI)
        fix j assume j: "j < mid + 1"
        have "key (work ! mid) \<le> key (work ! j)"
        proof (cases "j = mid")
          case True then show ?thesis by simp
        next
          case False
          then have "j < mid" using j by simp
          then show ?thesis using sorted_wrt_nth_less [OF assms(4), of j mid] mid by simp
        qed
        then show "key p \<le> key (work ! j)" using nonneg by simp
      qed
      have "binary_search cmp p work (mid + 1) right = Inr i"
        using step nonneg less.prems(5) by simp
      from less.hyps [OF m _ less.prems(2) lower less.prems(4) this] mid show ?thesis by simp
    qed
  qed
qed

lemma insert_at_sorted:
  assumes "sorted_wrt (\<lambda>x y. key y \<le> (key x :: int)) work" and "i \<le> length work"
    and "\<forall>j<i. key p \<le> key (work ! j)"
    and "\<forall>j. i \<le> j \<and> j < length work \<longrightarrow> key (work ! j) < key p"
  shows "sorted_wrt (\<lambda>x y. key y \<le> key x) (take i work @ p # drop i work)
       \<and> (\<forall>k. filter (\<lambda>t. key t = k) (take i work @ p # drop i work)
               = filter (\<lambda>t. key t = k) (work @ [p]))"
proof -
  have before: "\<forall>x\<in>set (take i work). key p \<le> key x"
  proof
    fix x assume "x \<in> set (take i work)"
    then obtain j where "j < length (take i work)" "take i work ! j = x"
      by (auto simp: in_set_conv_nth)
    then show "key p \<le> key x" using assms(3) by auto
  qed
  have after: "\<forall>y\<in>set (drop i work). key y < key p"
  proof
    fix y assume "y \<in> set (drop i work)"
    then obtain j where "j < length (drop i work)" "drop i work ! j = y"
      by (auto simp: in_set_conv_nth)
    then show "key y < key p" using assms(2,4) by auto
  qed
  have "sorted_wrt (\<lambda>x y. key y \<le> key x) (take i work @ drop i work)"
    using assms(1) by simp
  then have st: "sorted_wrt (\<lambda>x y. key y \<le> key x) (take i work)"
    and sd: "sorted_wrt (\<lambda>x y. key y \<le> key x) (drop i work)"
    by (simp_all only: sorted_wrt_append)
  have cross: "key y \<le> key x" if "x \<in> set (take i work)" "y \<in> set (p # drop i work)" for x y
  proof -
    have "key p \<le> key x" using before that(1) by blast
    moreover have "key y \<le> key p" using after that(2) by auto
    ultimately show ?thesis by simp
  qed
  have "sorted_wrt (\<lambda>x y. key y \<le> key x) (p # drop i work)"
    using sd after by auto
  then have "sorted_wrt (\<lambda>x y. key y \<le> key x) (take i work @ p # drop i work)"
    using st cross by (simp only: sorted_wrt_append) blast
  moreover have "filter (\<lambda>t. key t = k) (take i work @ p # drop i work)
               = filter (\<lambda>t. key t = k) (work @ [p])" for k
  proof -
    have w: "filter (\<lambda>t. key t = k) work
             = filter (\<lambda>t. key t = k) (take i work) @ filter (\<lambda>t. key t = k) (drop i work)"
      by (metis append_take_drop_id filter_append)
    show ?thesis
    proof (cases "key p = k")
      case True
      then have "filter (\<lambda>t. key t = k) (drop i work) = []"
        using after by (auto simp: filter_empty_conv)
      then show ?thesis using w True by simp
    next
      case False
      then show ?thesis using w by simp
    qed
  qed
  ultimately show ?thesis by blast
qed

lemma binary_insertion_key:
  assumes "\<forall>x\<in>S. \<forall>y\<in>S. cmp x y = Inr (Some (key y - key x))"
    and "set work \<subseteq> S" and "set later \<subseteq> S"
    and "sorted_wrt (\<lambda>x y. key y \<le> key x) work"
    and "binary_insertion cmp work later = Inr ys"
  shows "sorted_wrt (\<lambda>x y. key y \<le> key x) ys
       \<and> (\<forall>k. filter (\<lambda>t. key t = k) ys = filter (\<lambda>t. key t = k) (work @ later))"
  using assms(2-5)
proof (induction later arbitrary: work)
  case Nil
  then show ?case by simp
next
  case (Cons p later)
  then have p: "p \<in> S" and l: "set later \<subseteq> S" by simp_all
  from Cons.prems(4) obtain i where i: "binary_search cmp p work 0 (length work) = Inr i"
    and rest: "binary_insertion cmp (take i work @ p # drop i work) later = Inr ys"
    by (auto split: sum.splits)
  have "i \<le> length work \<and> (\<forall>j<i. key p \<le> key (work ! j))
       \<and> (\<forall>j. i \<le> j \<and> j < length work \<longrightarrow> key (work ! j) < key p)"
    using binary_search_key [OF assms(1) p Cons.prems(1,3) _ _ _ _ i] by simp
  then have ins: "sorted_wrt (\<lambda>x y. key y \<le> key x) (take i work @ p # drop i work)"
    and fil: "\<forall>k. filter (\<lambda>t. key t = k) (take i work @ p # drop i work)
               = filter (\<lambda>t. key t = k) (work @ [p])"
    using insert_at_sorted [OF Cons.prems(3), of i p] by blast+
  have sub: "set (take i work @ p # drop i work) \<subseteq> S" using Cons.prems(1) p
    by (auto dest: in_set_takeD in_set_dropD)
  from Cons.IH [OF sub l ins rest]
  have sorted: "sorted_wrt (\<lambda>x y. key y \<le> key x) ys"
    and ih: "\<forall>k. filter (\<lambda>t. key t = k) ys
           = filter (\<lambda>t. key t = k) ((take i work @ p # drop i work) @ later)"
    by blast+
  have "filter (\<lambda>t. key t = k) ys = filter (\<lambda>t. key t = k) (work @ p # later)" for k
  proof -
    have "filter (\<lambda>t. key t = k) ys
          = filter (\<lambda>t. key t = k) (take i work @ p # drop i work)
            @ filter (\<lambda>t. key t = k) later"
      using ih by (simp only: filter_append)
    also have "\<dots> = filter (\<lambda>t. key t = k) (work @ [p]) @ filter (\<lambda>t. key t = k) later"
      using fil by simp
    also have "\<dots> = filter (\<lambda>t. key t = k) (work @ p # later)" by simp
    finally show ?thesis .
  qed
  then show ?case using sorted by blast
qed

lemma array_sort_key:
  assumes "\<forall>x\<in>set xs. \<forall>y\<in>set xs. cmp x y = Inr (Some (key y - key x))"
    and "array_sort cmp xs = Inr ys"
  shows "sorted_wrt (\<lambda>x y. key y \<le> key x) ys
       \<and> (\<forall>k. filter (\<lambda>t. key t = k) ys = filter (\<lambda>t. key t = k) xs)"
proof (cases xs)
  case Nil
  then show ?thesis using assms(2) by auto
next
  case (Cons a tl)
  show ?thesis
  proof (cases tl)
    case Nil
    then show ?thesis using Cons assms(2) by auto
  next
    case (Cons b rest)
    then have xs: "xs = a # b # rest" using \<open>xs = a # tl\<close> by simp
    have mem: "a \<in> set xs" "b \<in> set xs" "set rest \<subseteq> set xs" using xs by auto
    from assms(2) obtain run later where r: "count_and_make_run cmp a b rest = Inr (run, later)"
      and b: "binary_insertion cmp run later = Inr ys"
      using xs by (auto split: sum.splits)
    from count_and_make_run_key [OF assms(1) mem r] obtain pre
      where pre: "pre @ later = xs" "sorted_wrt (\<lambda>x y. key y \<le> key x) run"
        "\<forall>k. filter (\<lambda>t. key t = k) run = filter (\<lambda>t. key t = k) pre"
      using xs by auto
    have nt: "\<forall>x\<in>set xs. \<forall>y\<in>set xs. \<not> isl (cmp x y)" using assms(1) by simp
    from count_and_make_run_total [OF nt mem] r
    have "mset run + mset later = mset xs" using xs by simp
    then have "set_mset (mset run + mset later) = set xs" by simp
    then have sub: "set run \<subseteq> set xs" "set later \<subseteq> set xs" by auto
    from binary_insertion_key [OF assms(1) sub pre(2) b]
    have "sorted_wrt (\<lambda>x y. key y \<le> key x) ys"
      and "\<forall>k. filter (\<lambda>t. key t = k) ys = filter (\<lambda>t. key t = k) (run @ later)"
      by blast+
    then show ?thesis using pre(1,3) by (metis filter_append)
  qed
qed

section \<open>Properties of fetchTodos\<close>

lemma get_prop_member: "v \<noteq> JNull \<Longrightarrow> get_prop (Some v) k = Inr (member v k)"
  by (cases v) (simp_all add: member_def)

lemma toTodo_deserialized:
  assumes "deserialized JSON_parse p = Some t"
  shows "toTodo JSON_parse p = Inr t"
proof -
  obtain i d where p: "p = (i, d)" by (cases p)
  from assms obtain v where v: "payload_of JSON_parse d = Some v" "v \<noteq> JNull"
    and t: "t = \<lparr>todo_id = i, title = member v ''title'', todo_text = member v ''text'',
                completed = member v ''completed'', created_at = member v ''created_at''\<rparr>"
    unfolding deserialized_def p by (auto split: option.splits json.splits)
  have "(case data d of
           Some (JStr s) \<Rightarrow>
             (case JSON_parse s of None \<Rightarrow> Inl SyntaxError | Some v \<Rightarrow> Inr (Some v))
         | v \<Rightarrow> Inr v) = (Inr (Some v) :: error + jsval)"
    using v(1) unfolding payload_of_def by (auto split: option.splits json.splits)
  then show ?thesis
    unfolding toTodo_def p t by (simp add: get_prop_member [OF v(2)])
qed

lemma map_throw_deserialized:
  "map (deserialized JSON_parse) docs = map Some expected
   \<Longrightarrow> map_throw (toTodo JSON_parse) docs = Inr expected"
proof (induction docs arbitrary: expected)
  case Nil
  then show ?case by simp
next
  case (Cons p docs)
  then obtain t ts where e: "expected = t # ts" by (cases expected) auto
  with Cons.prems have "deserialized JSON_parse p = Some t"
    and "map (deserialized JSON_parse) docs = map Some ts" by auto
  then show ?case using Cons.IH [of ts] e by (simp add: toTodo_deserialized)
qed

lemma compareFn_no_throw:
  "\<not> date_throws getTime x \<Longrightarrow> \<not> date_throws getTime y \<Longrightarrow> \<not> isl (compareFn getTime x y)"
  by (auto simp: date_throws_def compareFn_def split: sum.splits)

lemma compareFn_valid:
  "created_ms getTime x = Some a \<Longrightarrow> created_ms getTime y = Some b
   \<Longrightarrow> compareFn getTime x y = Inr (Some (b - a))"
  by (auto simp: compareFn_def created_ms_def split: sum.splits)

lemma array_sort_permutes:
  assumes "\<forall>t\<in>set xs. \<not> date_throws getTime t"
  shows "\<exists>ys. array_sort (compareFn getTime) xs = Inr ys \<and> mset ys = mset xs"
  using assms by (intro array_sort_total) (simp add: compareFn_no_throw)

lemma valid_no_throw: "created_ms getTime t \<noteq> None \<Longrightarrow> \<not> date_throws getTime t"
  by (auto simp: created_ms_def date_throws_def split: sum.splits)

lemma array_sort_newest_first:
  assumes "\<forall>t\<in>set xs. created_ms getTime t \<noteq> None"
    and "array_sort (compareFn getTime) xs = Inr ys"
  shows "sorted_wrt (not_older getTime) ys
       \<and> (\<forall>ms. filter (\<lambda>t. created_ms getTime t = ms) ys
                = filter (\<lambda>t. created_ms getTime t = ms) xs)"
proof -
  let ?key = "\<lambda>t. the (created_ms getTime t)"
  have k: "\<forall>x\<in>set xs. \<forall>y\<in>set xs. compareFn getTime x y = Inr (Some (?key y - ?key x))"
    using assms(1) by (auto intro!: compareFn_valid)
  from array_sort_key [OF k assms(2)]
  have s: "sorted_wrt (\<lambda>x y. ?key y \<le> ?key x) ys"
    and f: "\<forall>k. filter (\<lambda>t. ?key t = k) ys = filter (\<lambda>t. ?key t = k) xs"
    by blast+
  have "\<forall>t\<in>set xs. \<not> date_throws getTime t" using assms(1) by (simp add: valid_no_throw)
  from array_sort_permutes [OF this] assms(2) have "mset ys = mset xs" by auto
  then have set: "set ys = set xs" by (metis set_mset_mset)
  have valid: "\<forall>t\<in>set ys. created_ms getTime t \<noteq> None" using assms(1) set by simp
  have "sorted_wrt (not_older getTime) ys"
  proof (rule sorted_wrt_mono_rel [OF _ s])
    fix x y assume a: "x \<in> set ys" "y \<in> set ys" "?key y \<le> ?key x"
    then obtain u v where "created_ms getTime x = Some u" "created_ms getTime y = Some v"
      using valid by blast
    then show "not_older getTime x y" using a(3) by (simp add: not_older_def)
  qed
  moreover have "filter (\<lambda>t. created_ms getTime t = ms) ys
                = filter (\<lambda>t. created_ms getTime t = ms) xs" for ms
  proof (cases ms)
    case None
    have "filter (\<lambda>t. created_ms getTime t = None) ys = []"
      using valid by (simp add: filter_empty_conv)
    moreover have "filter (\<lambda>t. created_ms getTime t = None) xs = []"
      using assms(1) by (simp add: filter_empty_conv)
    ultimately show ?thesis using None by simp
  next
    case (Some a)
    have "filter (\<lambda>t. created_ms getTime t = Some a) ys = filter (\<lambda>t. ?key t = a) ys"
      using valid by (intro filter_cong) auto
    also have "\<dots> = filter (\<lambda>t. ?key t = a) xs" using f by blast
    also have "\<dots> = filter (\<lambda>t. created_ms getTime t = Some a) xs"
      using assms(1) by (intro filter_cong) auto
    finally show ?thesis using Some by simp
  qed
  ultimately show ?thesis by blast
qed

lemma fetchTodos_listed:
  assumes "queryClient h" and "account h = Some owner"
    and "map (deserialized JSON_parse) docs = map Some expected"
    and "array_sort (compareFn getTime) expected = Inr sortedTodos"
  shows "fetchTodos h JSON_parse getTime (Inr (Some \<lparr>documents = Some docs\<rparr>)) st =
     (st\<lparr>todos := sortedTodos,
         summary := \<lparr>total = int (length sortedTodos),
            completed_count = int (length (filter (\<lambda>t. truthy (completed t)) sortedTodos)),
            pending = int (length sortedTodos)
                      - int (length (filter (\<lambda>t. truthy (completed t)) sortedTodos))\<rparr>\<rparr>,
      [QueryUserDocuments owner ''todos'', ConsoleLog])"
  using assms(1,2,4) map_throw_deserialized [OF assms(3)]
  by (simp add: fetchTodos_def fetch_try_def Let_def)

text \<open>
  C1 (as amended). A refresh succeeds when the wallet hooks are there, the listing query
  answers with documents, every document has a payload to read (a string that parses,
  or a value, and not \<^verbatim>\<open>null\<close>) and no \<^verbatim>\<open>created_at\<close> makes the \<^verbatim>\<open>Date\<close> constructor throw.
  Then the cache after \<^verbatim>\<open>fetchTodos\<close> holds exactly the listed documents, each deserialized
  (the id is the listing key, the other fields are the payload's members), and nothing
  but the query and a log line is emitted. When every \<^verbatim>\<open>created_at\<close> is a valid date, the
  cache is ordered newest first, and todos with equal timestamps keep the order of the
  listing.
\<close>

theorem fetchTodos_mirrors_listing:
  assumes "queryClient h" and "account h = Some owner"
    and "map (deserialized JSON_parse) docs = map Some expected"
    and "\<forall>t\<in>set expected. \<not> date_throws getTime t"
  shows "mset (todos (fst (fetchTodos h JSON_parse getTime
                 (Inr (Some \<lparr>documents = Some docs\<rparr>)) st))) = mset expected
       \<and> snd (fetchTodos h JSON_parse getTime (Inr (Some \<lparr>documents = Some docs\<rparr>)) st)
           = [QueryUserDocuments owner ''todos'', ConsoleLog]
       \<and> ((\<forall>t\<in>set expected. created_ms getTime t \<noteq> None) \<longrightarrow>
            sorted_wrt (not_older getTime)
              (todos (fst (fetchTodos h JSON_parse getTime
                 (Inr (Some \<lparr>documents = Some docs\<rparr>)) st)))
            \<and> (\<forall>ms. filter (\<lambda>t. created_ms getTime t = ms)
                   (todos (fst (fetchTodos h JSON_parse getTime
                      (Inr (Some \<lparr>documents = Some docs\<rparr>)) st)))
                 = filter (\<lambda>t. created_ms getTime t = ms) expected))"
proof -
  from array_sort_permutes [OF assms(4)] obtain sortedTodos
    where s: "array_sort (compareFn getTime) expected = Inr sortedTodos"
      and m: "mset sortedTodos = mset expected"
    by blast
  note f = fetchTodos_listed [OF assms(1-3) s, of st]
  have "(\<forall>t\<in>set expected. created_ms getTime t \<noteq> None) \<longrightarrow>
        sorted_wrt (not_older getTime) sortedTodos
        \<and> (\<forall>ms. filter (\<lambda>t. created_ms getTime t = ms) sortedTodos
                 = filter (\<lambda>t. created_ms getTime t = ms) expected)"
    using array_sort_newest_first [OF _ s] by blast
  then show ?thesis unfolding f using m by simp
qed

theorem fetchTodos_mirrors_listing_witness:
  "todos (fst (fetchTodos example_hooks example_parse example_getTime
        (Inr (Some \<lparr>documents = Some example_docs\<rparr>)) example_state))
     = [example_todo ''2'' ''b'' True ''2024-01-02T00:00:00Z'',
        example_todo ''1'' ''a'' False ''2024-01-01T00:00:00Z'',
        example_todo ''3'' ''c'' False ''2024-01-01T00:00:00Z'']
   \<and> mset (todos (fst (fetchTodos example_hooks example_parse example_getTime
                 (Inr (Some \<lparr>documents = Some example_docs\<rparr>)) example_state)))
       = mset [example_todo ''1'' ''a'' False ''2024-01-01T00:00:00Z'',
               example_todo ''2'' ''b'' True ''2024-01-02T00:00:00Z'',
               example_todo ''3'' ''c'' False ''2024-01-01T00:00:00Z'']
   \<and> snd (fetchTodos example_hooks example_parse example_getTime
            (Inr (Some \<lparr>documents = Some example_docs\<rparr>)) example_state)
       = [QueryUserDocuments ''xion1owner'' ''todos'', ConsoleLog]
   \<and> sorted_wrt (not_older example_getTime)
           (todos (fst (fetchTodos example_hooks example_parse example_getTime
                 (Inr (Some \<lparr>documents = Some example_docs\<rparr>)) example_state)))
   \<and> (\<forall>ms. filter (\<lambda>t. created_ms example_getTime t = ms)
                 (todos (fst (fetchTodos example_hooks example_parse example_getTime
                    (Inr (Some \<lparr>documents = Some example_docs\<rparr>)) example_state)))
               = filter (\<lambda>t. created_ms example_getTime t = ms)
                   [example_todo ''1'' ''a'' False ''2024-01-01T00:00:00Z'',
                    example_todo ''2'' ''b'' True ''2024-01-02T00:00:00Z'',
                    example_todo ''3'' ''c'' False ''2024-01-01T00:00:00Z''])"
proof -
  have h1: "queryClient example_hooks" by (simp add: example_hooks_def)
  have h2: "account example_hooks = Some ''xion1owner''" by (simp add: example_hooks_def)
  have h3: "map (deserialized example_parse) example_docs =
     map Some [example_todo ''1'' ''a'' False ''2024-01-01T00:00:00Z'',
               example_todo ''2'' ''b'' True ''2024-01-02T00:00:00Z'',
               example_todo ''3'' ''c'' False ''2024-01-01T00:00:00Z'']"
    by (simp add: deserialized_def payload_of_def example_parse_def example_docs_def member_def
        example_todo_def)
  have h4: "\<forall>t\<in>set [example_todo ''1'' ''a'' False ''2024-01-01T00:00:00Z'',
               example_todo ''2'' ''b'' True ''2024-01-02T00:00:00Z'',
               example_todo ''3'' ''c'' False ''2024-01-01T00:00:00Z''].
             \<not> date_throws example_getTime t"
    by (simp add: date_throws_def example_getTime_def example_todo_def)
  have h5: "\<forall>t\<in>set [example_todo ''1'' ''a'' False ''2024-01-01T00:00:00Z'',
               example_todo ''2'' ''b'' True ''2024-01-02T00:00:00Z'',
               example_todo ''3'' ''c'' False ''2024-01-01T00:00:00Z''].
             created_ms example_getTime t \<noteq> None"
    by (simp add: created_ms_def example_getTime_def example_todo_def)
  have v: "todos (fst (fetchTodos example_hooks example_parse example_getTime
        (Inr (Some \<lparr>documents = Some example_docs\<rparr>)) example_state))
     = [example_todo ''2'' ''b'' True ''2024-01-02T00:00:00Z'',
        example_todo ''1'' ''a'' False ''2024-01-01T00:00:00Z'',
        example_todo ''3'' ''c'' False ''2024-01-01T00:00:00Z'']"
    by (simp add: fetchTodos_def fetch_try_def example_hooks_def example_docs_def toTodo_def
        example_parse_def count_and_make_run_def sort_compare_def binary_search.simps
        compareFn_def example_getTime_def example_todo_def)
  note t = fetchTodos_mirrors_listing [OF h1 h2 h3 h4, of example_state]
  show ?thesis
    using v t [THEN conjunct1] t [THEN conjunct2, THEN conjunct1]
      t [THEN conjunct2, THEN conjunct2, THEN mp, OF h5]
    by (intro conjI) simp_all
qed

text \<open>
  C1 as stated fails where a document has no valid date: the listing of an older todo,
  a todo without \<^verbatim>\<open>created_at\<close> and a newer todo deserializes, the refresh succeeds, and
  the cache keeps the order of the listing, the older todo before the newer one. (The
  comparator answers NaN, read as 0, for every pair with the undated todo; the three
  documents form one run and nothing is moved.)
\<close>

theorem fetchTodos_undated_counterexample:
  "map (deserialized example_parse) undated_docs =
     map Some [example_todo ''1'' ''a'' False ''2024-01-01T00:00:00Z'',
               \<lparr>todo_id = ''2'', title = Some (JStr ''u''), todo_text = Some (JStr ''u''),
                completed = Some (JBool False), created_at = None\<rparr>,
               example_todo ''3'' ''b'' True ''2024-01-02T00:00:00Z'']
   \<and> fetchTodos example_hooks example_parse example_getTime
        (Inr (Some \<lparr>documents = Some undated_docs\<rparr>)) example_state =
       (example_state
          \<lparr>todos := [example_todo ''1'' ''a'' False ''2024-01-01T00:00:00Z'',
                     \<lparr>todo_id = ''2'', title = Some (JStr ''u''), todo_text = Some (JStr ''u''),
                      completed = Some (JBool False), created_at = None\<rparr>,
                     example_todo ''3'' ''b'' True ''2024-01-02T00:00:00Z''],
            summary := \<lparr>total = 3, completed_count = 1, pending = 2\<rparr>\<rparr>,
        [QueryUserDocuments ''xion1owner'' ''todos'', ConsoleLog])
   \<and> created_ms example_getTime (example_todo ''1'' ''a'' False ''2024-01-01T00:00:00Z'')
       = Some 1704067200000
   \<and> created_ms example_getTime (example_todo ''3'' ''b'' True ''2024-01-02T00:00:00Z'')
       = Some 1704153600000
   \<and> \<not> not_older example_getTime
         (example_todo ''1'' ''a'' False ''2024-01-01T00:00:00Z'')
         (example_todo ''3'' ''b'' True ''2024-01-02T00:00:00Z'')
   \<and> \<not> sorted_wrt (not_older example_getTime)
         (todos (fst (fetchTodos example_hooks example_parse example_getTime
            (Inr (Some \<lparr>documents = Some undated_docs\<rparr>)) example_state)))"
  by (simp add: deserialized_def payload_of_def member_def undated_docs_def
      fetchTodos_def fetch_try_def example_hooks_def toTodo_def
      example_parse_def count_and_make_run_def sort_compare_def binary_search.simps
      compareFn_def example_getTime_def example_todo_def created_ms_def not_older_def)

text \<open>The path on which the sort throws: when the second listed todo has a
  \<^verbatim>\<open>created_at\<close> on which the \<^verbatim>\<open>Date\<close> constructor throws, the first call of the comparator
  throws, the sort ends with that exception, and the \<^verbatim>\<open>catch\<close> of \<^verbatim>\<open>fetchTodos\<close> empties the
  cache.\<close>

lemma fetchTodos_date_throws:
  assumes "queryClient h" and "account h = Some owner"
    and "map (deserialized JSON_parse) docs = map Some (a # b # rest)"
    and "getTime (created_at b) = Inl e"
  shows "fetchTodos h JSON_parse getTime (Inr (Some \<lparr>documents = Some docs\<rparr>)) st =
           (st\<lparr>todos := [], summary := \<lparr>total = 0, completed_count = 0, pending = 0\<rparr>\<rparr>,
            [QueryUserDocuments owner ''todos'', ConsoleError])"
proof -
  have "compareFn getTime b a = Inl e" using assms(4) by (simp add: compareFn_def)
  then have "array_sort (compareFn getTime) (a # b # rest) = Inl e"
    by (simp add: count_and_make_run_def sort_compare_def)
  then show ?thesis
    using assms(1,2) map_throw_deserialized [OF assms(3)]
    by (simp add: fetchTodos_def fetch_try_def no_todos_def)
qed

lemma map_throw_isl: "p \<in> set docs \<Longrightarrow> isl (f p) \<Longrightarrow> isl (map_throw f docs)"
  by (induction docs) (auto split: sum.splits)

lemma toTodo_unparseable:
  "data d = Some (JStr s) \<Longrightarrow> JSON_parse s = None \<Longrightarrow> toTodo JSON_parse (i, d) = Inl SyntaxError"
  by (simp add: toTodo_def)

text \<open>
  C2 (as amended). When the payload of some listed document is a string that fails to
  parse, \<^verbatim>\<open>fetchTodos\<close> does not throw: it logs the failure and replaces the cache by the
  empty list and the summary by zeros. All documents are dropped, the ones whose
  payloads parse included.
\<close>

theorem fetchTodos_unparseable_payload:
  assumes "queryClient h" and "account h = Some owner"
    and "(i, d) \<in> set docs" and "data d = Some (JStr s)" and "JSON_parse s = None"
  shows "fetchTodos h JSON_parse getTime (Inr (Some \<lparr>documents = Some docs\<rparr>)) st =
           (st\<lparr>todos := [], summary := \<lparr>total = 0, completed_count = 0, pending = 0\<rparr>\<rparr>,
            [QueryUserDocuments owner ''todos'', ConsoleError])"
proof -
  have "isl (map_throw (toTodo JSON_parse) docs)"
    using assms(3) toTodo_unparseable [where JSON_parse = JSON_parse, OF assms(4,5)] by (intro map_throw_isl [of "(i, d)"]) simp_all
  then obtain e where "map_throw (toTodo JSON_parse) docs = Inl e" by (auto simp: isl_def)
  then show ?thesis using assms(1,2) by (simp add: fetchTodos_def fetch_try_def no_todos_def)
qed

theorem fetchTodos_unparseable_payload_witness:
  "fetchTodos example_hooks example_parse example_getTime
     (Inr (Some \<lparr>documents = Some (example_docs @ [(''4'', \<lparr>data = Some (JStr ''not json'')\<rparr>)])\<rparr>))
     example_state =
   (example_state\<lparr>todos := [], summary := \<lparr>total = 0, completed_count = 0, pending = 0\<rparr>\<rparr>,
    [QueryUserDocuments ''xion1owner'' ''todos'', ConsoleError])"
proof -
  have h1: "queryClient example_hooks" by (simp add: example_hooks_def)
  have h2: "account example_hooks = Some ''xion1owner''" by (simp add: example_hooks_def)
  have h3: "(''4'', \<lparr>data = Some (JStr ''not json'')\<rparr>)
              \<in> set (example_docs @ [(''4'', \<lparr>data = Some (JStr ''not json'')\<rparr>)])" by simp
  have h4: "data \<lparr>data = Some (JStr ''not json'')\<rparr> = Some (JStr ''not json'')" by simp
  have h5: "example_parse ''not json'' = None" by (simp add: example_parse_def)
  show ?thesis
    by (rule fetchTodos_unparseable_payload
        [where JSON_parse = example_parse and s = "''not json''", OF h1 h2 h3 h4 h5])
qed

text \<open>
  C2 as stated fails: with three documents that deserialize and a fourth whose payload
  is \<^verbatim>\<open>not json\<close>, the cache is empty afterwards.
\<close>

theorem fetchTodos_drops_parseable_counterexample:
  "map (deserialized example_parse) example_docs =
     map Some [example_todo ''1'' ''a'' False ''2024-01-01T00:00:00Z'',
               example_todo ''2'' ''b'' True ''2024-01-02T00:00:00Z'',
               example_todo ''3'' ''c'' False ''2024-01-01T00:00:00Z'']
   \<and> example_parse ''not json'' = None
   \<and> todos (fst (fetchTodos example_hooks example_parse example_getTime
        (Inr (Some \<lparr>documents =
           Some (example_docs @ [(''4'', \<lparr>data = Some (JStr ''not json'')\<rparr>)])\<rparr>))
        example_state)) = []"
  by (simp add: deserialized_def payload_of_def example_parse_def example_docs_def member_def
      example_todo_def fetchTodos_def fetch_try_def toTodo_def example_hooks_def no_todos_def)

text \<open>
  C6. When the listing query throws, answers without documents or answers with an empty
  list, \<^verbatim>\<open>fetchTodos\<close> ends with an empty cache (and a summary of zeros) and no error:
  a thrown query is written to the console, and no alert is shown.
\<close>

theorem fetchTodos_empty_not_error:
  assumes "queryClient h" and "account h = Some owner"
  shows "fetchTodos h JSON_parse getTime (Inl e) st =
           (st\<lparr>todos := [], summary := \<lparr>total = 0, completed_count = 0, pending = 0\<rparr>\<rparr>,
            [QueryUserDocuments owner ''todos'', ConsoleError])
       \<and> fetchTodos h JSON_parse getTime (Inr None) st =
           (st\<lparr>todos := [], summary := \<lparr>total = 0, completed_count = 0, pending = 0\<rparr>\<rparr>,
            [QueryUserDocuments owner ''todos''])
       \<and> fetchTodos h JSON_parse getTime (Inr (Some \<lparr>documents = None\<rparr>)) st =
           (st\<lparr>todos := [], summary := \<lparr>total = 0, completed_count = 0, pending = 0\<rparr>\<rparr>,
            [QueryUserDocuments owner ''todos''])
       \<and> fetchTodos h JSON_parse getTime (Inr (Some \<lparr>documents = Some []\<rparr>)) st =
           (st\<lparr>todos := [], summary := \<lparr>total = 0, completed_count = 0, pending = 0\<rparr>\<rparr>,
            [QueryUserDocuments owner ''todos'', ConsoleLog])"
  using assms by (simp add: fetchTodos_def fetch_try_def no_todos_def)

theorem fetchTodos_empty_not_error_witness:
  "todos (fst (fetchTodos example_hooks example_parse example_getTime
                 (Inl (RemoteError ''network'')) example_state)) = []
   \<and> snd (fetchTodos example_hooks example_parse example_getTime
                 (Inl (RemoteError ''network'')) example_state)
       = [QueryUserDocuments ''xion1owner'' ''todos'', ConsoleError]
   \<and> todos (fst (fetchTodos example_hooks example_parse example_getTime
                 (Inr (Some \<lparr>documents = Some []\<rparr>)) example_state)) = []"
proof -
  have h1: "queryClient example_hooks" by (simp add: example_hooks_def)
  have h2: "account example_hooks = Some ''xion1owner''" by (simp add: example_hooks_def)
  show ?thesis
    using fetchTodos_empty_not_error [OF h1 h2, of example_parse example_getTime
        "RemoteError ''network''" example_state]
    by simp
qed

section \<open>Properties of toggleTodo and deleteTodo\<close>

text \<open>
  C4. When the hooks are there and \<^verbatim>\<open>client.execute\<close> returns, the cache after
  \<^verbatim>\<open>toggleTodo\<close> has the same length, every entry with the todo's key is the fully
  updated document (the todo with \<^verbatim>\<open>completed\<close> negated), every other entry is
  unchanged, and the only effect emitted is the mutation itself: no listing query
  stands between the mutation and the update of the cache.
\<close>

theorem toggleTodo_optimistic_update:
  assumes "client h" and "account h = Some owner"
  shows "length (todos (fst (toggleTodo h (Inr u) todo st))) = length (todos st)
       \<and> (\<forall>i<length (todos st).
            todos (fst (toggleTodo h (Inr u) todo st)) ! i =
              (if todo_id (todos st ! i) = todo_id todo
               then todo\<lparr>completed := Some (JBool (\<not> truthy (completed todo)))\<rparr>
               else todos st ! i))
       \<and> snd (toggleTodo h (Inr u) todo st) =
            [Execute owner (MsgUpdate ''todos'' (todo_id todo)
               (todo\<lparr>completed := Some (JBool (\<not> truthy (completed todo)))\<rparr>))]"
  using assms by (simp add: toggleTodo_def updatedTodo_def Let_def)

theorem toggleTodo_optimistic_update_witness:
  "todos (fst (toggleTodo example_hooks (Inr ())
        (example_todo ''1'' ''a'' False ''2024-01-01T00:00:00Z'') example_state))
     = [example_todo ''2'' ''b'' True ''2024-01-02T00:00:00Z'',
        example_todo ''1'' ''a'' True ''2024-01-01T00:00:00Z'',
        example_todo ''3'' ''c'' False ''2024-01-01T00:00:00Z'']
   \<and> todos (fst (toggleTodo example_hooks (Inr ())
        (example_todo ''1'' ''a'' False ''2024-01-01T00:00:00Z'') example_state)) ! 1
     = (example_todo ''1'' ''a'' False ''2024-01-01T00:00:00Z'')
         \<lparr>completed := Some (JBool (\<not> truthy (completed
              (example_todo ''1'' ''a'' False ''2024-01-01T00:00:00Z''))))\<rparr>
   \<and> snd (toggleTodo example_hooks (Inr ())
        (example_todo ''1'' ''a'' False ''2024-01-01T00:00:00Z'') example_state)
     = [Execute ''xion1owner'' (MsgUpdate ''todos'' ''1''
          (example_todo ''1'' ''a'' True ''2024-01-01T00:00:00Z''))]"
proof -
  have a: "account example_hooks = Some ''xion1owner''" and c: "client example_hooks"
    by (simp_all add: example_hooks_def)
  have v: "todos (fst (toggleTodo example_hooks (Inr ())
        (example_todo ''1'' ''a'' False ''2024-01-01T00:00:00Z'') example_state))
     = [example_todo ''2'' ''b'' True ''2024-01-02T00:00:00Z'',
        example_todo ''1'' ''a'' True ''2024-01-01T00:00:00Z'',
        example_todo ''3'' ''c'' False ''2024-01-01T00:00:00Z'']"
    by (simp add: toggleTodo_def updatedTodo_def example_hooks_def example_state_def
        example_todo_def)
  have i: "1 < length (todos example_state)" by (simp add: example_state_def)
  have n: "todo_id (todos example_state ! 1)
           = todo_id (example_todo ''1'' ''a'' False ''2024-01-01T00:00:00Z'')"
    by (simp add: example_state_def example_todo_def)
  note t = toggleTodo_optimistic_update [OF c a, of "()"
      "example_todo ''1'' ''a'' False ''2024-01-01T00:00:00Z''" example_state]
  have e: "todos (fst (toggleTodo example_hooks (Inr ())
        (example_todo ''1'' ''a'' False ''2024-01-01T00:00:00Z'') example_state)) ! 1
     = (example_todo ''1'' ''a'' False ''2024-01-01T00:00:00Z'')
         \<lparr>completed := Some (JBool (\<not> truthy (completed
              (example_todo ''1'' ''a'' False ''2024-01-01T00:00:00Z''))))\<rparr>"
    using t [THEN conjunct2, THEN conjunct1, THEN spec, THEN mp, OF i] n by simp
  have m: "snd (toggleTodo example_hooks (Inr ())
        (example_todo ''1'' ''a'' False ''2024-01-01T00:00:00Z'') example_state)
     = [Execute ''xion1owner'' (MsgUpdate ''todos'' ''1''
          (example_todo ''1'' ''a'' True ''2024-01-01T00:00:00Z''))]"
    using t [THEN conjunct2, THEN conjunct2] by (simp add: example_todo_def)
  show ?thesis using v e m by blast
qed

text \<open>
  C5. When the hooks are there and \<^verbatim>\<open>client.execute\<close> throws, \<^verbatim>\<open>toggleTodo\<close> and
  \<^verbatim>\<open>deleteTodo\<close> leave the cache and the summary as they were (the only state they
  write is the loading marker, reset at the end) and show an error alert.
\<close>

theorem failed_mutation_keeps_cache:
  assumes "client h" and "account h = Some owner"
  shows "toggleTodo h (Inl e) todo st =
           (st\<lparr>loadingAction := None\<rparr>,
            [Execute owner (MsgUpdate ''todos'' (todo_id todo) (updatedTodo todo)),
             ConsoleError, Alert ''Error'' ''Failed to update todo. Please try again.''])
       \<and> deleteTodo h (Inl e) todoId st =
           (st\<lparr>loadingAction := None\<rparr>,
            [Execute owner (MsgDelete ''todos'' todoId),
             ConsoleError, Alert ''Error'' ''Failed to delete todo. Please try again.''])
       \<and> todos (fst (toggleTodo h (Inl e) todo st)) = todos st
       \<and> summary (fst (toggleTodo h (Inl e) todo st)) = summary st
       \<and> todos (fst (deleteTodo h (Inl e) todoId st)) = todos st
       \<and> summary (fst (deleteTodo h (Inl e) todoId st)) = summary st"
  using assms by (simp add: toggleTodo_def deleteTodo_def Let_def)

theorem failed_mutation_keeps_cache_witness:
  "fst (toggleTodo example_hooks (Inl (RemoteError ''rejected''))
        (example_todo ''1'' ''a'' False ''2024-01-01T00:00:00Z'') example_state) = example_state
   \<and> fst (deleteTodo example_hooks (Inl (RemoteError ''rejected'')) ''1'' example_state)
       = example_state
   \<and> Alert ''Error'' ''Failed to update todo. Please try again.''
       \<in> set (snd (toggleTodo example_hooks (Inl (RemoteError ''rejected''))
        (example_todo ''1'' ''a'' False ''2024-01-01T00:00:00Z'') example_state))
   \<and> Alert ''Error'' ''Failed to delete todo. Please try again.''
       \<in> set (snd (deleteTodo example_hooks (Inl (RemoteError ''rejected'')) ''1''
                  example_state))"
proof -
  have a: "account example_hooks = Some ''xion1owner''" and c: "client example_hooks"
    by (simp_all add: example_hooks_def)
  have s: "example_state\<lparr>loadingAction := None\<rparr> = example_state"
    by (simp add: example_state_def)
  show ?thesis
    using failed_mutation_keeps_cache [OF c a, of "RemoteError ''rejected''"
        "example_todo ''1'' ''a'' False ''2024-01-01T00:00:00Z''" example_state "''1''"] s
    by simp
qed

lemma map_update_twice:
  "todo_id u = k \<Longrightarrow>
   map (\<lambda>t. if todo_id t = k then u else t) (map (\<lambda>t. if todo_id t = k then u else t) xs)
   = map (\<lambda>t. if todo_id t = k then u else t) xs"
  by (induction xs) auto

lemma count_update_twice:
  "todo_id u = k \<Longrightarrow>
   length (filter ((\<lambda>t. if todo_id t = k then b else truthy (completed t))
                     \<circ> (\<lambda>t. if todo_id t = k then u else t)) xs)
   = length (filter (\<lambda>t. if todo_id t = k then b else truthy (completed t)) xs)"
  by (induction xs) auto

text \<open>
  C8. Applying a successful \<^verbatim>\<open>toggleTodo\<close> for the same todo, hence the same key and the
  same payload \<open>updatedTodo todo\<close>, a second time gives the state the first application
  gave: cache and summary do not change again.
\<close>

theorem toggleTodo_idempotent:
  "fst (toggleTodo h (Inr u) todo (fst (toggleTodo h (Inr u) todo st)))
   = fst (toggleTodo h (Inr u) todo st)"
proof (cases "account h")
  case None
  then show ?thesis by (simp add: toggleTodo_def)
next
  case (Some owner)
  show ?thesis
  proof (cases "client h")
    case False
    then show ?thesis using Some by (simp add: toggleTodo_def)
  next
    case True
    have k: "todo_id (updatedTodo todo) = todo_id todo" by (simp add: updatedTodo_def)
    show ?thesis using Some True
      by (simp add: toggleTodo_def Let_def map_update_twice [OF k] count_update_twice [OF k]
          del: map_map split del: if_split cong: if_cong)
  qed
qed

theorem toggleTodo_idempotent_witness:
  "fst (toggleTodo example_hooks (Inr ())
          (example_todo ''1'' ''a'' False ''2024-01-01T00:00:00Z'')
          (fst (toggleTodo example_hooks (Inr ())
                  (example_todo ''1'' ''a'' False ''2024-01-01T00:00:00Z'') example_state)))
   = fst (toggleTodo example_hooks (Inr ())
            (example_todo ''1'' ''a'' False ''2024-01-01T00:00:00Z'') example_state)"
  by (rule toggleTodo_idempotent)

section \<open>The summary agrees with the cache\<close>

lemma fetch_try_consistent:
  "fetch_try JSON_parse getTime resp st = Inr (st', evs) \<Longrightarrow> summary_consistent st'"
  by (auto simp: fetch_try_def summary_consistent_def no_todos_def Let_def
      split: option.splits sum.splits)

lemma fetchTodos_consistent:
  assumes "queryClient h" and "account h = Some owner"
  shows "summary_consistent (fst (fetchTodos h JSON_parse getTime q st))"
proof (cases "case q of Inl e \<Rightarrow> Inl e | Inr resp \<Rightarrow> fetch_try JSON_parse getTime resp st")
  case (Inl e)
  then show ?thesis using assms
    by (simp add: fetchTodos_def summary_consistent_def no_todos_def)
next
  case (Inr r)
  obtain st' evs where r: "r = (st', evs)" by (cases r)
  with Inr obtain resp where "fetch_try JSON_parse getTime resp st = Inr (st', evs)"
    by (cases q) auto
  then have "summary_consistent st'" by (rule fetch_try_consistent)
  then show ?thesis using assms Inr r by (simp add: fetchTodos_def)
qed

lemma length_filter_map_if:
  "length (filter (P \<circ> (\<lambda>t. if c t then u else t)) xs)
   = length (filter (\<lambda>t. (c t \<longrightarrow> P u) \<and> (\<not> c t \<longrightarrow> P t)) xs)"
  by (induction xs) auto

lemma toggleTodo_consistent:
  assumes "client h" and "account h = Some owner"
  shows "summary_consistent (fst (toggleTodo h (Inr u) todo st))"
  using assms
  by (simp add: toggleTodo_def summary_consistent_def Let_def length_filter_map_if)

lemma length_filter_once:
  "length (filter (\<lambda>t. f t = k) xs) = 1 \<Longrightarrow> length (filter (\<lambda>t. f t \<noteq> k) xs) = length xs - 1"
  using sum_length_filter_compl [of "\<lambda>t. f t = k" xs] by simp

lemma deleteTodo_consistent:
  assumes "client h" and "account h = Some owner"
    and "length (filter (\<lambda>t. todo_id t = todoId) (todos st)) = 1"
  shows "summary_consistent (fst (deleteTodo h (Inr u) todoId st))"
proof -
  have l: "length (filter (\<lambda>t. todo_id t \<noteq> todoId) (todos st)) = length (todos st) - 1"
    using assms(3) by (rule length_filter_once)
  have p: "0 < length (todos st)"
    using assms(3) by (cases "todos st") auto
  have "int (length (todos st) - 1) = int (length (todos st)) - 1"
    using p by linarith
  then show ?thesis
    using assms(1,2) l by (simp add: deleteTodo_def summary_consistent_def Let_def conj_commute)
qed

text \<open>
  C10. With the hooks there, the summary is consistent with the cache (completed plus
  pending is the total, the total is the length of the cache, completed is the number
  of cached todos whose \<^verbatim>\<open>completed\<close> holds) after every \<^verbatim>\<open>fetchTodos\<close>, after every
  \<^verbatim>\<open>toggleTodo\<close> whose mutation returns, and after every \<^verbatim>\<open>deleteTodo\<close> whose mutation
  returns for a key the cache holds exactly once.
\<close>

theorem summary_matches_cache:
  assumes "account h = Some owner"
  shows "(queryClient h \<longrightarrow> summary_consistent (fst (fetchTodos h JSON_parse getTime q st)))
       \<and> (client h \<longrightarrow> summary_consistent (fst (toggleTodo h (Inr u) todo st)))
       \<and> (client h \<and> length (filter (\<lambda>t. todo_id t = todoId) (todos st)) = 1 \<longrightarrow>
            summary_consistent (fst (deleteTodo h (Inr u) todoId st)))"
  using assms fetchTodos_consistent toggleTodo_consistent deleteTodo_consistent by blast

theorem summary_matches_cache_witness:
  "summary_consistent (fst (fetchTodos example_hooks example_parse example_getTime
        (Inr (Some \<lparr>documents = Some example_docs\<rparr>)) example_state))
   \<and> summary_consistent (fst (toggleTodo example_hooks (Inr ())
        (example_todo ''1'' ''a'' False ''2024-01-01T00:00:00Z'') example_state))
   \<and> summary_consistent (fst (deleteTodo example_hooks (Inr ()) ''1'' example_state))
   \<and> summary (fst (deleteTodo example_hooks (Inr ()) ''1'' example_state))
       = \<lparr>total = 2, completed_count = 1, pending = 1\<rparr>"
proof -
  have a: "account example_hooks = Some ''xion1owner''" by (simp add: example_hooks_def)
  have q: "queryClient example_hooks" and c: "client example_hooks"
    by (simp_all add: example_hooks_def)
  have l: "length (filter (\<lambda>t. todo_id t = ''1'') (todos example_state)) = 1"
    by (simp add: example_state_def example_todo_def)
  have s: "summary (fst (deleteTodo example_hooks (Inr ()) ''1'' example_state))
       = \<lparr>total = 2, completed_count = 1, pending = 1\<rparr>"
    by (simp add: deleteTodo_def example_hooks_def example_state_def example_todo_def)
  show ?thesis
    using summary_matches_cache [OF a, of example_parse example_getTime
        "Inr (Some \<lparr>documents = Some example_docs\<rparr>)" example_state "()"
        "example_todo ''1'' ''a'' False ''2024-01-01T00:00:00Z''" "''1''"] q c l s
    by simp
qed

section \<open>Properties of addTodo\<close>

lemma find_upt_bounds: "find P [r..<m] = Some k \<Longrightarrow> r \<le> k \<and> k < m"
  by (auto simp: find_Some_iff)

lemma confirm_loop_trace:
  assumes "r < 10"
  shows "fst (confirm_loop q owner tid r)
           = (case find (\<lambda>k. found (q k) tid) [r..<10] of None \<Rightarrow> 10 | Some k \<Rightarrow> Suc k)
       \<and> without_logs (snd (confirm_loop q owner tid r))
           = QueryUserDocuments owner ''todos''
             # concat (replicate (fst (confirm_loop q owner tid r) - Suc r)
                         [Sleep 2000, QueryUserDocuments owner ''todos''])"
  using assms
proof (induction "10 - r" arbitrary: r)
  case 0
  then show ?case by simp
next
  case (Suc d)
  have u: "[r..<10] = r # [Suc r..<10]" using Suc.prems by (simp add: upt_conv_Cons)
  note step = confirm_loop.simps [of q owner tid r]
  show ?case
  proof (cases "found (q r) tid")
    case True
    then show ?thesis using Suc.prems u by (simp add: step without_logs_def)
  next
    case False
    show ?thesis
    proof (cases "Suc r < 10")
      case last: False
      then have ten: "Suc r = 10" using Suc.prems by simp
      have nxt: "confirm_loop q owner tid (Suc r) = (Suc r, [])"
        using last by (simp add: confirm_loop.simps [of q owner tid "Suc r"])
      have cur: "confirm_loop q owner tid r =
          (Suc r, [QueryUserDocuments owner ''todos'']
                  @ (if isl (q r) then [ConsoleLog] else []))"
        using last Suc.prems False by (subst step) (simp add: nxt)
      have fstv: "fst (confirm_loop q owner tid r) = Suc r" by (simp add: cur)
      have sndv: "without_logs (snd (confirm_loop q owner tid r))
                  = [QueryUserDocuments owner ''todos'']"
        by (simp add: cur without_logs_def)
      have fnd: "find (\<lambda>k. found (q k) tid) [r..<10] = None"
        using False last u by simp
      show ?thesis unfolding fstv sndv fnd using ten by simp
    next
      case more: True
      let ?n = "fst (confirm_loop q owner tid (Suc r))"
      have ih: "?n = (case find (\<lambda>k. found (q k) tid) [Suc r..<10] of
                        None \<Rightarrow> 10 | Some k \<Rightarrow> Suc k)"
        and ih2: "without_logs (snd (confirm_loop q owner tid (Suc r)))
           = QueryUserDocuments owner ''todos''
             # concat (replicate (?n - Suc (Suc r))
                         [Sleep 2000, QueryUserDocuments owner ''todos''])"
        using Suc.hyps(1) [of "Suc r"] Suc.hyps(2) more by auto
      have ge: "Suc (Suc r) \<le> ?n"
        using ih more find_upt_bounds [of "\<lambda>k. found (q k) tid" "Suc r" 10]
        by (auto split: option.splits)
      then have rep: "?n - Suc r = Suc (?n - Suc (Suc r))" by simp
      obtain n evs where c: "confirm_loop q owner tid (Suc r) = (n, evs)"
        by (cases "confirm_loop q owner tid (Suc r)")
      have "fst (confirm_loop q owner tid r) = ?n"
        using False Suc.prems c by (simp add: step)
      moreover have "without_logs (snd (confirm_loop q owner tid r))
           = QueryUserDocuments owner ''todos'' # Sleep 2000
             # without_logs (snd (confirm_loop q owner tid (Suc r)))"
        using False Suc.prems more c by (simp add: step without_logs_def)
      ultimately show ?thesis using ih ih2 rep False u by simp
    qed
  qed
qed

lemma fetchTodos_without_logs:
  assumes "queryClient h" and "account h = Some owner"
  shows "without_logs (snd (fetchTodos h JSON_parse getTime r st))
         = [QueryUserDocuments owner ''todos'']"
  using assms
  by (auto simp: fetchTodos_def fetch_try_def without_logs_def Let_def
      split: sum.splits option.splits)

lemma polls_bounds: "1 \<le> polls q todoId \<and> polls q todoId \<le> 10"
  using find_upt_bounds [of "\<lambda>k. found (q k) todoId" 0 10]
  by (auto simp: polls_def split: option.splits)

lemma addTodo_accepted:
  assumes "client h" and "queryClient h" and "account h = Some owner"
    and "trim (newTodoText st) \<noteq> []"
  shows "addTodo h trim JSON_parse getTime now_id now_iso (Inr u) q st =
     ((fst (fetchTodos h JSON_parse getTime (q (polls q now_id))
              (st\<lparr>loading := True, newTodoText := []\<rparr>)))\<lparr>loading := False\<rparr>,
      Execute owner (MsgSet ''todos'' now_id (newTodo now_id (trim (newTodoText st)) now_iso))
        # snd (confirm_loop q owner now_id 0)
        @ snd (fetchTodos h JSON_parse getTime (q (polls q now_id))
              (st\<lparr>loading := True, newTodoText := []\<rparr>)))"
proof -
  obtain n evs where c: "confirm_loop q owner now_id 0 = (n, evs)"
    by (cases "confirm_loop q owner now_id 0")
  have n: "n = polls q now_id"
    using confirm_loop_trace [of 0 q owner now_id] c by (simp add: polls_def)
  obtain st2 evs' where f: "fetchTodos h JSON_parse getTime (q (polls q now_id))
              (st\<lparr>loading := True, newTodoText := []\<rparr>) = (st2, evs')"
    by (cases "fetchTodos h JSON_parse getTime (q (polls q now_id))
              (st\<lparr>loading := True, newTodoText := []\<rparr>)")
  show ?thesis using assms c n f
    by (simp add: addTodo_def Let_def)
qed

text \<open>
  C3. When the hooks are there, the trimmed input is not empty and the mutation call
  returns, \<^verbatim>\<open>addTodo\<close> (having sent the todo built from the trimmed input) issues between
  1 and 10 confirmation queries, with a sleep of 2000 ms between one and the next,
  stopping at the first answer that lists the new key, then exactly one more query,
  that of the final \<^verbatim>\<open>fetchTodos\<close>, whose state it keeps; no alert is shown, whatever the
  queries answer. When the mutation call throws, an alert is shown and no query is
  made. \<open>trim\<close> is the platform's \<^verbatim>\<open>String.prototype.trim\<close>, whatever it strips.
\<close>

theorem addTodo_confirms_then_refreshes:
  assumes "client h" and "queryClient h" and "account h = Some owner"
    and "trim (newTodoText st) \<noteq> []"
  shows "1 \<le> polls q now_id \<and> polls q now_id \<le> 10
       \<and> without_logs (snd (addTodo h trim JSON_parse getTime now_id now_iso (Inr u) q st))
           = Execute owner (MsgSet ''todos'' now_id (newTodo now_id (trim (newTodoText st)) now_iso))
             # QueryUserDocuments owner ''todos''
             # concat (replicate (polls q now_id - 1)
                         [Sleep 2000, QueryUserDocuments owner ''todos''])
             @ [QueryUserDocuments owner ''todos'']
       \<and> fst (addTodo h trim JSON_parse getTime now_id now_iso (Inr u) q st)
           = (fst (fetchTodos h JSON_parse getTime (q (polls q now_id))
                     (st\<lparr>loading := True, newTodoText := []\<rparr>)))\<lparr>loading := False\<rparr>
       \<and> (\<forall>a b. Alert a b \<notin> set (snd (addTodo h trim JSON_parse getTime now_id now_iso (Inr u) q st)))
       \<and> snd (addTodo h trim JSON_parse getTime now_id now_iso (Inl e) q st)
           = [Execute owner (MsgSet ''todos'' now_id (newTodo now_id (trim (newTodoText st)) now_iso)),
              ConsoleError, Alert ''Error'' ''Failed to add todo. Please try again.'']"
proof -
  note acc = addTodo_accepted [where trim = trim, OF assms, of JSON_parse getTime now_id now_iso u q]
  have n: "fst (confirm_loop q owner now_id 0) = polls q now_id"
    using confirm_loop_trace [of 0 q owner now_id] by (simp add: polls_def)
  have w: "without_logs (snd (confirm_loop q owner now_id 0))
           = QueryUserDocuments owner ''todos''
             # concat (replicate (polls q now_id - 1)
                         [Sleep 2000, QueryUserDocuments owner ''todos''])"
    using confirm_loop_trace [of 0 q owner now_id] n by simp
  have f: "without_logs (snd (fetchTodos h JSON_parse getTime (q (polls q now_id))
              (st\<lparr>loading := True, newTodoText := []\<rparr>))) = [QueryUserDocuments owner ''todos'']"
    by (rule fetchTodos_without_logs [OF assms(2,3)])
  have app: "\<And>xs ys. without_logs (xs @ ys) = without_logs xs @ without_logs ys"
    by (simp add: without_logs_def)
  have trace: "without_logs (snd (addTodo h trim JSON_parse getTime now_id now_iso (Inr u) q st))
           = Execute owner (MsgSet ''todos'' now_id (newTodo now_id (trim (newTodoText st)) now_iso))
             # QueryUserDocuments owner ''todos''
             # concat (replicate (polls q now_id - 1)
                         [Sleep 2000, QueryUserDocuments owner ''todos''])
             @ [QueryUserDocuments owner ''todos'']"
    unfolding acc snd_conv
    using w f by (simp add: without_logs_def)
  have alerts: "\<And>a b evs. Alert a b \<in> set evs \<Longrightarrow> Alert a b \<in> set (without_logs evs)"
    by (simp add: without_logs_def)
  have no_alert: "\<forall>a b. Alert a b \<notin> set (snd (addTodo h trim JSON_parse getTime now_id now_iso (Inr u) q st))"
  proof (intro allI notI)
    fix a b
    assume "Alert a b \<in> set (snd (addTodo h trim JSON_parse getTime now_id now_iso (Inr u) q st))"
    then have "Alert a b \<in> set (without_logs
                 (snd (addTodo h trim JSON_parse getTime now_id now_iso (Inr u) q st)))"
      by (rule alerts)
    then show False unfolding trace by (auto split: if_splits)
  qed
  have rejected: "snd (addTodo h trim JSON_parse getTime now_id now_iso (Inl e) q st)
           = [Execute owner (MsgSet ''todos'' now_id (newTodo now_id (trim (newTodoText st)) now_iso)),
              ConsoleError, Alert ''Error'' ''Failed to add todo. Please try again.'']"
    using assms by (simp add: addTodo_def Let_def)
  have final: "fst (addTodo h trim JSON_parse getTime now_id now_iso (Inr u) q st)
           = (fst (fetchTodos h JSON_parse getTime (q (polls q now_id))
                     (st\<lparr>loading := True, newTodoText := []\<rparr>)))\<lparr>loading := False\<rparr>"
    unfolding acc fst_conv by (rule refl)
  from polls_bounds [of q now_id] have "1 \<le> polls q now_id" and "polls q now_id \<le> 10"
    by simp_all
  then show ?thesis using trace final no_alert rejected by (intro conjI)
qed

theorem addTodo_confirms_then_refreshes_witness:
  "polls (\<lambda>k. if k < 3 then Inr None
               else Inr (Some \<lparr>documents = Some [(''1704240000000'', \<lparr>data = None\<rparr>)]\<rparr>))
         ''1704240000000'' = 4
   \<and> without_logs (snd (addTodo example_hooks example_trim example_parse example_getTime
         ''1704240000000'' ''2024-01-03T00:00:00.000Z'' (Inr ())
         (\<lambda>k. if k < 3 then Inr None
               else Inr (Some \<lparr>documents = Some [(''1704240000000'', \<lparr>data = None\<rparr>)]\<rparr>))
         example_state))
     = [Execute ''xion1owner'' (MsgSet ''todos'' ''1704240000000''
          (newTodo ''1704240000000'' ''buy milk'' ''2024-01-03T00:00:00.000Z'')),
        QueryUserDocuments ''xion1owner'' ''todos'', Sleep 2000,
        QueryUserDocuments ''xion1owner'' ''todos'', Sleep 2000,
        QueryUserDocuments ''xion1owner'' ''todos'', Sleep 2000,
        QueryUserDocuments ''xion1owner'' ''todos'',
        QueryUserDocuments ''xion1owner'' ''todos'']
   \<and> polls (\<lambda>k. Inl (RemoteError ''timeout'')) ''1704240000000'' = 10
   \<and> (\<forall>a b. Alert a b \<notin> set (snd (addTodo example_hooks example_trim example_parse example_getTime
         ''1704240000000'' ''2024-01-03T00:00:00.000Z'' (Inr ())
         (\<lambda>k. Inl (RemoteError ''timeout'')) example_state)))
   \<and> snd (addTodo example_hooks example_trim example_parse example_getTime
         ''1704240000000'' ''2024-01-03T00:00:00.000Z'' (Inl (RemoteError ''rejected''))
         (\<lambda>k. Inl (RemoteError ''timeout'')) example_state)
     = [Execute ''xion1owner'' (MsgSet ''todos'' ''1704240000000''
          (newTodo ''1704240000000'' ''buy milk'' ''2024-01-03T00:00:00.000Z'')),
        ConsoleError, Alert ''Error'' ''Failed to add todo. Please try again.'']"
proof -
  let ?q = "\<lambda>k::nat. if k < 3 then (Inr None :: query_result)
               else Inr (Some \<lparr>documents = Some [(''1704240000000'', \<lparr>data = None\<rparr>)]\<rparr>)"
  let ?t = "\<lambda>k::nat. (Inl (RemoteError ''timeout'') :: query_result)"
  have c: "client example_hooks" and qc: "queryClient example_hooks"
    and a: "account example_hooks = Some ''xion1owner''"
    by (simp_all add: example_hooks_def)
  have nt: "example_trim (newTodoText example_state) = ''buy milk''"
    by (simp add: example_state_def example_trim_def)
  then have t: "example_trim (newTodoText example_state) \<noteq> []" by simp
  have u: "[0..<10] = [0, 1, 2, 3, 4, 5, 6, 7, 8, 9]" by (simp add: upt_rec)
  have p1: "polls ?q ''1704240000000'' = 4" by (simp add: polls_def found_def u)
  have p2: "polls ?t ''1704240000000'' = 10" by (simp add: polls_def found_def u)
  note w1 = addTodo_confirms_then_refreshes [where trim = example_trim, OF c qc a t, of ?q "''1704240000000''"
      example_parse example_getTime "''2024-01-03T00:00:00.000Z''" "()"]
  note w2 = addTodo_confirms_then_refreshes [where trim = example_trim, OF c qc a t, of ?t "''1704240000000''"
      example_parse example_getTime "''2024-01-03T00:00:00.000Z''" "()" "RemoteError ''rejected''"]
  have r: "replicate (4 - 1) [Sleep 2000, QueryUserDocuments ''xion1owner'' ''todos'']
           = [[Sleep 2000, QueryUserDocuments ''xion1owner'' ''todos''],
              [Sleep 2000, QueryUserDocuments ''xion1owner'' ''todos''],
              [Sleep 2000, QueryUserDocuments ''xion1owner'' ''todos'']]"
    by (simp add: numeral_3_eq_3)
  have tr: "without_logs (snd (addTodo example_hooks example_trim example_parse example_getTime
         ''1704240000000'' ''2024-01-03T00:00:00.000Z'' (Inr ()) ?q example_state))
     = [Execute ''xion1owner'' (MsgSet ''todos'' ''1704240000000''
          (newTodo ''1704240000000'' ''buy milk'' ''2024-01-03T00:00:00.000Z'')),
        QueryUserDocuments ''xion1owner'' ''todos'', Sleep 2000,
        QueryUserDocuments ''xion1owner'' ''todos'', Sleep 2000,
        QueryUserDocuments ''xion1owner'' ''todos'', Sleep 2000,
        QueryUserDocuments ''xion1owner'' ''todos'',
        QueryUserDocuments ''xion1owner'' ''todos'']"
    using w1 [THEN conjunct2, THEN conjunct2, THEN conjunct1] unfolding p1 r nt by simp
  have na: "\<forall>a b. Alert a b \<notin> set (snd (addTodo example_hooks example_trim example_parse example_getTime
         ''1704240000000'' ''2024-01-03T00:00:00.000Z'' (Inr ()) ?t example_state))"
    by (rule w2 [THEN conjunct2, THEN conjunct2, THEN conjunct2, THEN conjunct2, THEN conjunct1])
  have rj: "snd (addTodo example_hooks example_trim example_parse example_getTime
         ''1704240000000'' ''2024-01-03T00:00:00.000Z'' (Inl (RemoteError ''rejected''))
         ?t example_state)
     = [Execute ''xion1owner'' (MsgSet ''todos'' ''1704240000000''
          (newTodo ''1704240000000'' ''buy milk'' ''2024-01-03T00:00:00.000Z'')),
        ConsoleError, Alert ''Error'' ''Failed to add todo. Please try again.'']"
    using w2 [THEN conjunct2, THEN conjunct2, THEN conjunct2, THEN conjunct2, THEN conjunct2]
    unfolding nt by simp
  show ?thesis using p1 tr p2 na rj by (intro conjI)
qed

end
